theory Spec2Isabelle
  imports Main "HOL-Library.AList"
begin

section \<open>Data model (lib/types.ts)\<close>

text \<open>
  The records follow the interfaces of \<^verbatim>\<open>types.ts\<close>. Numbers that the code only
  ever reads from \<^verbatim>\<open>\d+\<close> matches or from exit statuses are naturals. The
  \<^verbatim>\<open>phases\<close> object of a deployment state is an association list from phase number to
  status: \<^verbatim>\<open>state.phases[n]\<close> is \<open>map_of\<close>, the assignment
  \<^verbatim>\<open>state.phases[n] = s\<close> is \<open>AList.update\<close>.
\<close>

datatype PhaseStatus = pending | complete | failed

record DeploymentMetadata =
  deployUser :: string
  deployUid :: nat
  deployGid :: nat
  deployHome :: string
  image :: string
  branch :: string

record DeploymentState =
  instanceName :: string
  deploymentId :: string
  startedAt :: string
  lastPhase :: nat
  phases :: "(nat \<times> PhaseStatus) list"
  metadata :: DeploymentMetadata

record UserInfo =
  username :: string
  uid :: nat
  gid :: nat
  home :: string
  inDockerGroup :: bool

record ExecResult =
  exitCode :: nat
  stdout :: string
  stderr :: string

text \<open>
  \<^verbatim>\<open>SSHConfig\<close> and the part of \<^verbatim>\<open>DeploymentConfig\<close> that \<^verbatim>\<open>deployCommand\<close> reads.
  The fields \<^verbatim>\<open>instanceName\<close> and \<^verbatim>\<open>branch\<close> of the configuration carry the prefix
  \<open>config\<close>, since the deployment state has fields of the same names.
\<close>

record SSHConfig =
  host :: string
  port :: nat
  sshUsername :: string
  privateKeyPath :: string

record DeploymentConfig =
  ip :: string
  configInstanceName :: string
  ssh :: SSHConfig
  configBranch :: string
  skipOnboard :: bool
  noAutoConnect :: bool
  force :: bool
  clean :: bool
  verbose :: bool

section \<open>The remote session (lib/ssh-client.ts)\<close>

text \<open>
  A thrown JavaScript \<^verbatim>\<open>Error\<close> is a value; an asynchronous function of the source is
  a function from the world to a result (\<open>Inl\<close> the error thrown, \<open>Inr\<close> the value
  returned) and the world afterwards. \<^verbatim>\<open>process.exit(n)\<close> ends the process at once: it is
  the value \<open>ProcessExit n\<close>, which no \<^verbatim>\<open>catch\<close> handles.

  The world holds what the code can observe of the target host and what it did to it:
  \<^item> \<open>connected\<close>: the flag of the \<^verbatim>\<open>SSHClient\<close>;
  \<^item> \<open>stateFile\<close>: the content of the deployment state file on the host, \<open>None\<close> when
    the file does not exist;
  \<^item> \<open>replies\<close>: the answers the host gives to every other request, in the order the
    requests are made. Since every run makes finitely many requests, quantifying over all
    reply lists covers every behaviour of the host; a request made when the list is used up
    is rejected;
  \<^item> \<open>trace\<close>: the requests made and the phase banners logged so far.
  Reads and removals of the state file are answered from \<open>stateFile\<close>; an upload to it may
  still be rejected by the transport.
\<close>

datatype error = Error string | ProcessExit nat

datatype reply = Rejects | Reply nat string string

datatype event =
    Exec string
  | ExecStream string
  | UploadContent string string
  | ExecInteractive string
  | ConnectAttempt nat
  | LogPhase nat
  | LogSkip

record world =
  connected :: bool
  stateFile :: "string option"
  replies :: "reply list"
  trace :: "event list"

type_synonym 'a io = "world \<Rightarrow> (error + 'a) \<times> world"

definition ret :: "'a \<Rightarrow> 'a io" where
  "ret x w = (Inr x, w)"

definition throw :: "string \<Rightarrow> 'a io" where
  "throw msg w = (Inl (Error msg), w)"

definition andThen :: "'a io \<Rightarrow> ('a \<Rightarrow> 'b io) \<Rightarrow> 'b io" where
  "andThen m f w = (case m w of (Inl e, w') \<Rightarrow> (Inl e, w') | (Inr x, w') \<Rightarrow> f x w')"

definition tryCatch :: "'a io \<Rightarrow> (error \<Rightarrow> 'a io) \<Rightarrow> 'a io" where
  "tryCatch m h w =
     (case m w of
        (Inl (Error msg), w') \<Rightarrow> h (Error msg) w'
      | (Inl (ProcessExit n), w') \<Rightarrow> (Inl (ProcessExit n), w')
      | (Inr x, w') \<Rightarrow> (Inr x, w'))"

definition processExit :: "nat \<Rightarrow> 'a io" where
  "processExit n w = (Inl (ProcessExit n), w)"

definition logEvent :: "event \<Rightarrow> unit io" where
  "logEvent e w = (Inr (), w\<lparr>trace := trace w @ [e]\<rparr>)"

definition STATE_FILE :: string where
  "STATE_FILE = ''/home/roboclaw/.clawctl-deploy-state.json''"

definition CLEAN_STATE_CMD :: string where
  "CLEAN_STATE_CMD =
     ''rm -f /root/.clawctl-deploy-state.json /home/roboclaw/.clawctl-deploy-state.json 2>/dev/null || true''"

definition nextReply :: "world \<Rightarrow> reply \<times> world" where
  "nextReply w = (case replies w of [] \<Rightarrow> (Rejects, w) | r # rs \<Rightarrow> (r, w\<lparr>replies := rs\<rparr>))"

text \<open>What the host answers to a command.\<close>

definition hostExec :: "string \<Rightarrow> world \<Rightarrow> reply \<times> world" where
  "hostExec command w =
     (if command = ''cat '' @ STATE_FILE then
        (case stateFile w of
           None \<Rightarrow> (Reply 1 [] ''No such file or directory'', w)
         | Some content \<Rightarrow> (Reply 0 content [], w))
      else if command = ''rm -f '' @ STATE_FILE \<or> command = CLEAN_STATE_CMD then
        (Reply 0 [] [], w\<lparr>stateFile := None\<rparr>)
      else nextReply w)"

definition exec :: "string \<Rightarrow> ExecResult io" where
  "exec command w =
     (if \<not> connected w then (Inl (Error ''Not connected to SSH server''), w)
      else
        (case hostExec command (w\<lparr>trace := trace w @ [Exec command]\<rparr>) of
           (Rejects, w') \<Rightarrow> (Inl (Error ''exec failed''), w')
         | (Reply code out err, w') \<Rightarrow>
             (Inr \<lparr>exitCode = code, stdout = out, stderr = err\<rparr>, w')))"

definition execStream :: "string \<Rightarrow> nat io" where
  "execStream command w =
     (if \<not> connected w then (Inl (Error ''Not connected to SSH server''), w)
      else
        (case hostExec command (w\<lparr>trace := trace w @ [ExecStream command]\<rparr>) of
           (Rejects, w') \<Rightarrow> (Inl (Error ''exec failed''), w')
         | (Reply code out err, w') \<Rightarrow> (Inr code, w')))"

definition uploadContent :: "string \<Rightarrow> string \<Rightarrow> unit io" where
  "uploadContent content remotePath w =
     (if \<not> connected w then (Inl (Error ''Not connected to SSH server''), w)
      else
        (case nextReply (w\<lparr>trace := trace w @ [UploadContent content remotePath]\<rparr>) of
           (Rejects, w') \<Rightarrow> (Inl (Error ''upload failed''), w')
         | (Reply code out err, w') \<Rightarrow>
             (Inr (), if remotePath = STATE_FILE then w'\<lparr>stateFile := Some content\<rparr> else w')))"

definition execInteractive :: "string \<Rightarrow> unit io" where
  "execInteractive command w =
     (if \<not> connected w then (Inl (Error ''Not connected to SSH server''), w)
      else
        (case nextReply (w\<lparr>trace := trace w @ [ExecInteractive command]\<rparr>) of
           (Rejects, w') \<Rightarrow> (Inl (Error ''pty failed''), w')
         | (Reply code out err, w') \<Rightarrow> (Inr (), w')))"

section \<open>Text helpers\<close>

text \<open>
  The string methods and regular expressions the source applies to command output.
  A string is the sequence of the bytes of its UTF-8 encoding, as the host sends it.

  \<open>WHITE_SPACE\<close> lists the encodings of the code points that \<^verbatim>\<open>String.prototype.trim\<close> and
  \<^verbatim>\<open>parseInt\<close> strip (WhiteSpace and LineTerminator of ECMAScript): U+0009 to U+000D,
  U+0020, U+00A0, U+1680, U+2000 to U+200A, U+2028, U+2029, U+202F, U+205F, U+3000 and
  U+FEFF. \<open>spaceWidth pats s\<close> is the number of bytes of the pattern of \<open>pats\<close> that \<open>s\<close> begins
  with, 0 if there is none; \<open>stripSpace pats\<close> removes such patterns from the front while
  there is one. The end of a string is stripped on the reversed string with the reversed
  patterns: in UTF-8 no encoding is the tail of another.
\<close>

definition WHITE_SPACE :: "string list" where
  "WHITE_SPACE =
     [[CHR 0x09], [CHR 0x0A], [CHR 0x0B], [CHR 0x0C], [CHR 0x0D], [CHR 0x20],
      [CHR 0xC2, CHR 0xA0],
      [CHR 0xE1, CHR 0x9A, CHR 0x80],
      [CHR 0xE2, CHR 0x80, CHR 0x80], [CHR 0xE2, CHR 0x80, CHR 0x81],
      [CHR 0xE2, CHR 0x80, CHR 0x82], [CHR 0xE2, CHR 0x80, CHR 0x83],
      [CHR 0xE2, CHR 0x80, CHR 0x84], [CHR 0xE2, CHR 0x80, CHR 0x85],
      [CHR 0xE2, CHR 0x80, CHR 0x86], [CHR 0xE2, CHR 0x80, CHR 0x87],
      [CHR 0xE2, CHR 0x80, CHR 0x88], [CHR 0xE2, CHR 0x80, CHR 0x89],
      [CHR 0xE2, CHR 0x80, CHR 0x8A],
      [CHR 0xE2, CHR 0x80, CHR 0xA8], [CHR 0xE2, CHR 0x80, CHR 0xA9],
      [CHR 0xE2, CHR 0x80, CHR 0xAF],
      [CHR 0xE2, CHR 0x81, CHR 0x9F],
      [CHR 0xE3, CHR 0x80, CHR 0x80],
      [CHR 0xEF, CHR 0xBB, CHR 0xBF]]"

definition spaceWidth :: "string list \<Rightarrow> string \<Rightarrow> nat" where
  "spaceWidth pats s =
     (case find (\<lambda>pat. pat \<noteq> [] \<and> take (length pat) s = pat) pats of
        None \<Rightarrow> 0
      | Some pat \<Rightarrow> length pat)"

fun stripSpace :: "string list \<Rightarrow> string \<Rightarrow> string" where
  "stripSpace pats [] = []"
| "stripSpace pats (c # cs) =
     (if spaceWidth pats (c # cs) = 0 then c # cs
      else stripSpace pats (drop (spaceWidth pats (c # cs) - 1) cs))"

definition isDigit :: "char \<Rightarrow> bool" where
  "isDigit c = (c \<in> set ''0123456789'')"

definition isWord :: "char \<Rightarrow> bool" where
  "isWord c =
     (c \<in> set ''abcdefghijklmnopqrstuvwxyzABCDEFGHIJKLMNOPQRSTUVWXYZ0123456789_'')"

definition trim :: "string \<Rightarrow> string" where
  "trim s = rev (stripSpace (map rev WHITE_SPACE) (rev (stripSpace WHITE_SPACE s)))"

definition startsWith :: "string \<Rightarrow> string \<Rightarrow> bool" where
  "startsWith s p = (take (length p) s = p)"

fun includesStr :: "string \<Rightarrow> string \<Rightarrow> bool" where
  "includesStr [] sub = (sub = [])"
| "includesStr (c # cs) sub = (startsWith (c # cs) sub \<or> includesStr cs sub)"

definition digitValue :: "char \<Rightarrow> nat" where
  "digitValue c = of_char c - 48"

definition decimal :: "string \<Rightarrow> nat" where
  "decimal ds = foldl (\<lambda>n c. 10 * n + digitValue c) 0 ds"

text \<open>\<^verbatim>\<open>parseInt(s, 10)\<close>: \<open>None\<close> is NaN.\<close>

definition parseInt :: "string \<Rightarrow> int option" where
  "parseInt s =
     (let t = stripSpace WHITE_SPACE s;
          negative = (t \<noteq> [] \<and> hd t = CHR ''-'');
          u = (if t \<noteq> [] \<and> (hd t = CHR ''-'' \<or> hd t = CHR ''+'') then tl t else t);
          ds = takeWhile isDigit u
      in if ds = [] then None
         else Some (if negative then - int (decimal ds) else int (decimal ds)))"

text \<open>The template substitution \<^verbatim>\<open>${n}\<close> of a non-negative integer.\<close>

definition digitChar :: "nat \<Rightarrow> char" where
  "digitChar d = char_of (48 + d)"

function showNat :: "nat \<Rightarrow> string" where
  "showNat n = (if n < 10 then [digitChar n] else showNat (n div 10) @ [digitChar (n mod 10)])"
  by pat_completeness auto
termination
  by (relation "measure id") auto

text \<open>
  The leftmost match of a regular expression \<^verbatim>\<open>key(class+)\<close>: the first position at which
  \<open>key\<close> is followed by at least one character of the class; the result is the longest
  run of such characters there.
\<close>

fun matchAfter :: "string \<Rightarrow> (char \<Rightarrow> bool) \<Rightarrow> string \<Rightarrow> string option" where
  "matchAfter key cls [] = None"
| "matchAfter key cls (c # cs) =
     (if startsWith (c # cs) key \<and> takeWhile cls (drop (length key) (c # cs)) \<noteq> []
      then Some (takeWhile cls (drop (length key) (c # cs)))
      else matchAfter key cls cs)"

fun splitOn :: "char \<Rightarrow> string \<Rightarrow> string list" where
  "splitOn sep [] = [[]]"
| "splitOn sep (c # cs) =
     (if c = sep then [] # splitOn sep cs
      else (case splitOn sep cs of
              [] \<Rightarrow> [[c]]
            | part # parts \<Rightarrow> (c # part) # parts))"

section \<open>Deployment state on the remote server (lib/state.ts)\<close>

text \<open>
  \<^verbatim>\<open>JSON.parse\<close>, \<^verbatim>\<open>JSON.stringify\<close>, the random UUID and the clock are built-ins
  of the language, not code of this repository: they are parameters, collected in a record.
  \<open>JSON_parse\<close> returns \<open>None\<close> where \<^verbatim>\<open>JSON.parse\<close> throws a SyntaxError; its
  result has the type the source casts it to (\<^verbatim>\<open>as DeploymentState\<close>).
  \<open>JSON_gatewayToken\<close> stands for \<^verbatim>\<open>JSON.parse(text)?.gateway?.auth?.token\<close> where that is
  a string: \<open>None\<close> where the parse throws, \<open>Some None\<close> where the field is absent or not a
  string. \<open>generateDockerCompose\<close> is the compose template of
  \<^verbatim>\<open>templates/docker-compose.js\<close>, a constant text.
\<close>

record runtime =
  JSON_parse :: "string \<Rightarrow> DeploymentState option"
  JSON_stringify :: "DeploymentState \<Rightarrow> string"
  generateUUID :: string
  nowISOString :: string
  JSON_gatewayToken :: "string \<Rightarrow> string option option"
  generateDockerCompose :: string

definition parseState :: "runtime \<Rightarrow> string \<Rightarrow> DeploymentState io" where
  "parseState rt text =
     (case JSON_parse rt text of
        None \<Rightarrow> throw ''SyntaxError''
      | Some state \<Rightarrow> ret state)"

definition createState :: "runtime \<Rightarrow> string \<Rightarrow> DeploymentMetadata \<Rightarrow> unit io" where
  "createState rt name meta =
     (let state = \<lparr>instanceName = name,
                   deploymentId = generateUUID rt,
                   startedAt = nowISOString rt,
                   lastPhase = 0,
                   phases = [(1, pending), (2, pending), (3, pending), (4, pending),
                             (5, pending), (6, pending), (7, pending), (8, pending),
                             (9, pending), (10, pending)],
                   metadata = meta\<rparr>;
          content = JSON_stringify rt state
      in uploadContent content STATE_FILE)"

definition loadState :: "runtime \<Rightarrow> DeploymentState option io" where
  "loadState rt =
     tryCatch
       (andThen (exec (''cat '' @ STATE_FILE)) (\<lambda>result.
          if exitCode result \<noteq> 0 then ret None
          else andThen (parseState rt (stdout result)) (\<lambda>state. ret (Some state))))
       (\<lambda>error. ret None)"

definition updateState :: "runtime \<Rightarrow> nat \<Rightarrow> PhaseStatus \<Rightarrow> unit io" where
  "updateState rt phaseNumber status =
     andThen (loadState rt) (\<lambda>loaded.
       case loaded of
         None \<Rightarrow> ret ()
       | Some state \<Rightarrow>
           (let state' = state\<lparr>phases := AList.update phaseNumber status (phases state),
                                lastPhase := phaseNumber\<rparr>;
                content = JSON_stringify rt state'
            in uploadContent content STATE_FILE))"

definition deleteState :: "unit io" where
  "deleteState = andThen (exec (''rm -f '' @ STATE_FILE)) (\<lambda>result. ret ())"

definition detectPartialDeployment :: "runtime \<Rightarrow> DeploymentState option io" where
  "detectPartialDeployment rt =
     andThen (loadState rt) (\<lambda>loaded.
       case loaded of
         None \<Rightarrow> ret None
       | Some state \<Rightarrow>
           (let hasFailedPhases = list_ex (\<lambda>status. status = failed) (map snd (phases state));
                hasPendingPhases = list_ex (\<lambda>status. status = pending) (map snd (phases state))
            in if hasFailedPhases \<or> hasPendingPhases then ret (Some state) else ret None))"

definition isPhaseComplete :: "DeploymentState \<Rightarrow> nat \<Rightarrow> bool" where
  "isPhaseComplete state phaseNumber = (map_of (phases state) phaseNumber = Some complete)"

section \<open>Docker installation (lib/docker-setup.ts)\<close>

record DockerInfo =
  version :: string
  composeVersion :: string

definition isVersionChar :: "char \<Rightarrow> bool" where
  "isVersionChar c = (c \<in> set ''0123456789.'')"

definition parseDockerVersion :: "string \<Rightarrow> DockerInfo" where
  "parseDockerVersion output =
     (let dockerMatch = matchAfter ''Docker version '' isVersionChar output;
          composeMatch = matchAfter ''Docker Compose version v'' isVersionChar output
      in \<lparr>version = (case dockerMatch of Some v \<Rightarrow> v | None \<Rightarrow> ''unknown''),
          composeVersion = (case composeMatch of Some v \<Rightarrow> v | None \<Rightarrow> ''unknown'')\<rparr>)"

definition BASE_PACKAGES_CMD :: string where
  "BASE_PACKAGES_CMD =
     ''export DEBIAN_FRONTEND=noninteractive\<newline>'' @
     ''    apt-get update -qq\<newline>'' @
     ''    apt-get install -y -qq curl wget git ca-certificates gnupg lsb-release''"

definition installBasePackages :: "unit io" where
  "installBasePackages =
     andThen (exec ''command -v curl && command -v wget && command -v git'') (\<lambda>checkResult.
       if exitCode checkResult = 0 then ret ()
       else
         andThen (execStream BASE_PACKAGES_CMD) (\<lambda>result.
           if result \<noteq> 0 then throw ''Failed to install base packages''
           else ret ()))"

definition DOCKER_INSTALL_CMD :: string where
  \<open>DOCKER_INSTALL_CMD =
     ''# Add Docker GPG key\<newline>'' @
     ''    install -m 0755 -d /etc/apt/keyrings\<newline>'' @
     ''    curl -fsSL https://download.docker.com/linux/ubuntu/gpg | '' @ [CHR 0x5C] @ ''\<newline>'' @
     ''      gpg --batch --yes --dearmor -o /etc/apt/keyrings/docker.gpg\<newline>'' @
     ''    chmod a+r /etc/apt/keyrings/docker.gpg\<newline>'' @
     ''\<newline>'' @
     ''    # Add Docker repository\<newline>'' @
     ''    echo "deb [arch=amd64 signed-by=/etc/apt/keyrings/docker.gpg] '' @ [CHR 0x5C] @ ''\<newline>'' @
     ''      https://download.docker.com/linux/ubuntu '' @ [CHR 0x5C] @ ''\<newline>'' @
     ''      $(lsb_release -cs) stable" > /etc/apt/sources.list.d/docker.list\<newline>'' @
     ''\<newline>'' @
     ''    # Install Docker\<newline>'' @
     ''    export DEBIAN_FRONTEND=noninteractive\<newline>'' @
     ''    apt-get update -qq\<newline>'' @
     ''    apt-get install -y -qq docker-ce docker-ce-cli containerd.io docker-buildx-plugin docker-compose-plugin\<newline>'' @
     ''\<newline>'' @
     ''    # Start and enable Docker service\<newline>'' @
     ''    systemctl start docker\<newline>'' @
     ''    systemctl enable docker''\<close>

definition installDocker :: "DockerInfo io" where
  "installDocker =
     andThen (exec ''docker --version && docker compose version'') (\<lambda>checkResult.
       if exitCode checkResult = 0 then ret (parseDockerVersion (stdout checkResult))
       else
         andThen (execStream DOCKER_INSTALL_CMD) (\<lambda>result.
           if result \<noteq> 0 then throw ''Failed to install Docker''
           else
             andThen (exec ''docker --version && docker compose version'') (\<lambda>verifyResult.
               if exitCode verifyResult \<noteq> 0
               then throw ''Docker installation verification failed''
               else ret (parseDockerVersion (stdout verifyResult)))))"

section \<open>The deployment user (lib/user-setup.ts)\<close>

definition getUserInfo :: "string \<Rightarrow> UserInfo io" where
  "getUserInfo name =
     andThen (exec (''id '' @ name @ '' && eval echo ~'' @ name @ '' && groups '' @ name))
       (\<lambda>result.
         if exitCode result \<noteq> 0 then throw ''User does not exist''
         else
           (let uidMatch = matchAfter ''uid='' isDigit (stdout result);
                gidMatch = matchAfter ''gid='' isDigit (stdout result);
                homeMatch = matchAfter ''/home/'' isWord (stdout result);
                dockerGroupMatch = includesStr (stdout result) ''docker''
            in case (uidMatch, gidMatch, homeMatch) of
                 (Some u, Some g, Some h) \<Rightarrow>
                   ret \<lparr>username = name, uid = decimal u, gid = decimal g,
                        home = ''/home/'' @ h, inDockerGroup = dockerGroupMatch\<rparr>
               | _ \<Rightarrow> throw ''Failed to parse user info''))"

definition createDeploymentUser :: "UserInfo io" where
  "createDeploymentUser =
     (let name = ''roboclaw'' in
      andThen (exec (''id '' @ name)) (\<lambda>checkResult.
        if exitCode checkResult = 0 then
          andThen (getUserInfo name) (\<lambda>userInfo.
            if \<not> inDockerGroup userInfo then
              andThen (exec (''usermod -aG docker '' @ name)) (\<lambda>r.
                ret (userInfo\<lparr>inDockerGroup := True\<rparr>))
            else ret userInfo)
        else
          andThen
            (exec (''useradd -r -m -s /bin/bash -u 1000 '' @ name @
                   '' 2>/dev/null || useradd -r -m -s /bin/bash '' @ name))
            (\<lambda>createResult.
              if exitCode createResult \<noteq> 0 then throw ''Failed to create user''
              else
                andThen (getUserInfo name) (\<lambda>userInfo.
                  andThen (exec (''usermod -aG docker '' @ name)) (\<lambda>r.
                    ret (userInfo\<lparr>inDockerGroup := True\<rparr>))))))"

definition CREATE_DIRS_CMD :: "string \<Rightarrow> string \<Rightarrow> string" where
  "CREATE_DIRS_CMD name h =
     ''mkdir -p '' @ h @ ''/.openclaw\<newline>'' @
     ''    mkdir -p '' @ h @ ''/.roboclaw/sessions\<newline>'' @
     ''    mkdir -p '' @ h @ ''/.roboclaw/credentials\<newline>'' @
     ''    mkdir -p '' @ h @ ''/.roboclaw/data\<newline>'' @
     ''    mkdir -p '' @ h @ ''/.roboclaw/logs\<newline>'' @
     ''    mkdir -p '' @ h @ ''/docker\<newline>'' @
     ''    mkdir -p '' @ h @ ''/openclaw-src\<newline>'' @
     ''\<newline>'' @
     ''    # Set ownership\<newline>'' @
     ''    chown -R '' @ name @ '':'' @ name @ '' '' @ [CHR 0x5C] @ ''\<newline>'' @
     ''      '' @ h @ ''/.openclaw '' @ [CHR 0x5C] @ ''\<newline>'' @
     ''      '' @ h @ ''/.roboclaw '' @ [CHR 0x5C] @ ''\<newline>'' @
     ''      '' @ h @ ''/docker '' @ [CHR 0x5C] @ ''\<newline>'' @
     ''      '' @ h @ ''/openclaw-src\<newline>'' @
     ''\<newline>'' @
     ''    # Secure credentials directory\<newline>'' @
     ''    chmod 700 '' @ h @ ''/.roboclaw/credentials''"

definition createDirectories :: "UserInfo \<Rightarrow> unit io" where
  "createDirectories userInfo =
     andThen (exec (CREATE_DIRS_CMD (username userInfo) (home userInfo))) (\<lambda>result.
       if exitCode result \<noteq> 0 then throw ''Failed to create directories''
       else ret ())"

section \<open>Image build (lib/image-builder.ts)\<close>

definition checkImageExists :: "string \<Rightarrow> bool io" where
  "checkImageExists imageName =
     andThen (exec (''docker images -q '' @ imageName)) (\<lambda>result.
       ret (exitCode result = 0 \<and> length (trim (stdout result)) > 0))"

definition checkRepoExists :: "string \<Rightarrow> bool io" where
  "checkRepoExists repoPath =
     andThen (exec (''test -d '' @ repoPath @ ''/.git'')) (\<lambda>result.
       ret (exitCode result = 0))"

definition verifyImage :: "string \<Rightarrow> nat \<Rightarrow> nat \<Rightarrow> bool io" where
  "verifyImage imageName u g =
     andThen
       (exec (''docker run --rm --user '' @ showNat u @ '':'' @ showNat g @ '' '' @
              imageName @ '' id -u''))
       (\<lambda>result.
         if exitCode result \<noteq> 0 then ret False
         else
           (let containerUid = parseInt (trim (stdout result))
            in ret (containerUid = Some (int u))))"

definition UPDATE_REPO_CMD :: "string \<Rightarrow> string \<Rightarrow> string \<Rightarrow> string" where
  "UPDATE_REPO_CMD repoPath name br =
     ''cd '' @ repoPath @ ''\<newline>'' @
     ''      sudo -u '' @ name @ '' git fetch origin\<newline>'' @
     ''      sudo -u '' @ name @ '' git checkout '' @ br @ ''\<newline>'' @
     ''      sudo -u '' @ name @ '' git pull''"

definition CLONE_REPO_CMD :: "string \<Rightarrow> string \<Rightarrow> string \<Rightarrow> string" where
  "CLONE_REPO_CMD repoPath name br =
     ''sudo -u '' @ name @ '' git clone https://github.com/openclaw/openclaw.git '' @
       repoPath @ ''\<newline>'' @
     ''      cd '' @ repoPath @ ''\<newline>'' @
     ''      sudo -u '' @ name @ '' git checkout '' @ br"

definition BUILD_CMD :: "string \<Rightarrow> string \<Rightarrow> string" where
  "BUILD_CMD repoPath imageName =
     ''cd '' @ repoPath @ ''\<newline>'' @
     ''    docker build -t '' @ imageName @ '' .''"

text \<open>
  The part of \<^verbatim>\<open>buildImage\<close> after the check of an existing image: update or clone the
  source, build, and verify what was built.
\<close>

definition rebuildImage :: "UserInfo \<Rightarrow> string \<Rightarrow> string \<Rightarrow> string io" where
  "rebuildImage userInfo br imageName =
     (let repoPath = home userInfo @ ''/openclaw-src'' in
      andThen (checkRepoExists repoPath) (\<lambda>repoExists.
      andThen
        (if repoExists then execStream (UPDATE_REPO_CMD repoPath (username userInfo) br)
         else execStream (CLONE_REPO_CMD repoPath (username userInfo) br))
        (\<lambda>ignored.
      andThen (execStream (BUILD_CMD repoPath imageName)) (\<lambda>buildResult.
        if buildResult \<noteq> 0 then throw ''Docker image build failed''
        else
          andThen (checkImageExists imageName) (\<lambda>built.
            if \<not> built then throw ''Image build completed but image not found''
            else
              andThen (verifyImage imageName (uid userInfo) (gid userInfo)) (\<lambda>isUsable.
                if \<not> isUsable then throw ''Built image failed verification''
                else ret imageName))))))"

definition buildImage :: "UserInfo \<Rightarrow> string \<Rightarrow> string io" where
  "buildImage userInfo br =
     (let imageName = ''roboclaw/openclaw:local'' in
      andThen (checkImageExists imageName) (\<lambda>imageExists.
        if imageExists then
          andThen (verifyImage imageName (uid userInfo) (gid userInfo)) (\<lambda>isUsable.
            if isUsable then ret imageName
            else
              andThen (exec (''docker rmi '' @ imageName)) (\<lambda>r.
                rebuildImage userInfo br imageName))
        else rebuildImage userInfo br imageName))"

section \<open>Compose files (lib/compose.ts)\<close>

definition generateEnvFile :: "UserInfo \<Rightarrow> string \<Rightarrow> string" where
  "generateEnvFile userInfo imageName =
     ''# OpenClaw Docker image\<newline>'' @
     ''OPENCLAW_IMAGE='' @ imageName @ ''\<newline>'' @
     ''\<newline>'' @
     ''# OpenClaw configuration directories\<newline>'' @
     ''OPENCLAW_CONFIG_DIR='' @ home userInfo @ ''/.openclaw\<newline>'' @
     ''OPENCLAW_WORKSPACE_DIR='' @ home userInfo @ ''/.openclaw/workspace\<newline>'' @
     ''\<newline>'' @
     ''# Gateway settings\<newline>'' @
     ''OPENCLAW_GATEWAY_PORT=18789\<newline>'' @
     ''OPENCLAW_GATEWAY_BIND=lan\<newline>'' @
     ''\<newline>'' @
     ''# Deployment user info\<newline>'' @
     ''DEPLOY_USER='' @ username userInfo @ ''\<newline>'' @
     ''DEPLOY_UID='' @ showNat (uid userInfo) @ ''\<newline>'' @
     ''DEPLOY_GID='' @ showNat (gid userInfo) @ ''\<newline>'' @
     ''DEPLOY_HOME='' @ home userInfo @ ''\<newline>''"

text \<open>
  \<^verbatim>\<open>content.replace(/OPENCLAW_GATEWAY_TOKEN=.*/, 'OPENCLAW_GATEWAY_TOKEN=' + token)\<close>: the
  first occurrence of the key and the rest of its line are replaced.
\<close>

fun replaceTokenLine :: "string \<Rightarrow> string \<Rightarrow> string" where
  "replaceTokenLine [] token = []"
| "replaceTokenLine (c # cs) token =
     (if startsWith (c # cs) ''OPENCLAW_GATEWAY_TOKEN=''
      then ''OPENCLAW_GATEWAY_TOKEN='' @ token @ dropWhile (\<lambda>x. x \<noteq> CHR 0x0A \<and> x \<noteq> CHR 0x0D) (c # cs)
      else c # replaceTokenLine cs token)"

definition updateEnvToken :: "UserInfo \<Rightarrow> string \<Rightarrow> unit io" where
  "updateEnvToken userInfo token =
     (let envPath = home userInfo @ ''/docker/.env'' in
      andThen (exec (''cat '' @ envPath)) (\<lambda>result.
        if exitCode result \<noteq> 0 then throw ''Failed to read .env file''
        else
          (let content =
                 (if includesStr (stdout result) ''OPENCLAW_GATEWAY_TOKEN=''
                  then replaceTokenLine (stdout result) token
                  else stdout result @ ''\<newline># Gateway authentication (from onboarding)\<newline>'' @
                       ''OPENCLAW_GATEWAY_TOKEN='' @ token @ ''\<newline>'')
           in andThen (uploadContent content envPath) (\<lambda>u.
              andThen (exec (''chown '' @ username userInfo @ '':'' @ username userInfo @
                             '' '' @ envPath)) (\<lambda>r. ret ())))))"

definition uploadComposeFiles :: "runtime \<Rightarrow> UserInfo \<Rightarrow> string \<Rightarrow> unit io" where
  "uploadComposeFiles rt userInfo imageName =
     (let composeDir = home userInfo @ ''/docker'';
          composeContent = generateDockerCompose rt;
          envContent = generateEnvFile userInfo imageName;
          composePath = composeDir @ ''/docker-compose.yml'';
          envPath = composeDir @ ''/.env''
      in andThen (uploadContent composeContent composePath) (\<lambda>u1.
         andThen (uploadContent envContent envPath) (\<lambda>u2.
         andThen (exec (''chown '' @ username userInfo @ '':'' @ username userInfo @ '' '' @
                        composePath @ '' '' @ envPath)) (\<lambda>chownResult.
           if exitCode chownResult \<noteq> 0 then throw ''Failed to set file ownership''
           else ret ()))))"

section \<open>Onboarding and gateway start (lib/interactive.ts)\<close>

definition checkOnboardingComplete :: "string \<Rightarrow> bool io" where
  "checkOnboardingComplete h =
     andThen (exec (''test -f '' @ h @ ''/.openclaw/openclaw.json'')) (\<lambda>result.
       ret (exitCode result = 0))"

definition runOnboarding :: "UserInfo \<Rightarrow> bool \<Rightarrow> unit io" where
  "runOnboarding userInfo skip =
     (let composeDir = home userInfo @ ''/docker'' in
      andThen (checkOnboardingComplete (home userInfo)) (\<lambda>configExists.
        if configExists then ret ()
        else if skip then ret ()
        else
          (let onboardCmd = ''cd '' @ composeDir @ '' && sudo -u '' @ username userInfo @
                 '' docker compose run --rm -it openclaw-cli onboard --no-install-daemon''
           in andThen (tryCatch (execInteractive onboardCmd) (\<lambda>error. ret ())) (\<lambda>u.
              andThen (checkOnboardingComplete (home userInfo)) (\<lambda>onboardingComplete.
                if \<not> onboardingComplete
                then throw ''Onboarding failed - config file not found''
                else ret ())))))"

definition extractGatewayToken :: "runtime \<Rightarrow> UserInfo \<Rightarrow> string option io" where
  "extractGatewayToken rt userInfo =
     (let configPath = home userInfo @ ''/.openclaw/openclaw.json'' in
      andThen (exec (''cat '' @ configPath)) (\<lambda>result.
        if exitCode result \<noteq> 0 then ret None
        else
          (case JSON_gatewayToken rt (stdout result) of
             None \<Rightarrow> ret None
           | Some None \<Rightarrow> ret None
           | Some (Some token) \<Rightarrow> if token \<noteq> [] then ret (Some token) else ret None)))"

text \<open>
  The polling loop of \<^verbatim>\<open>startGateway\<close>: \<open>waited\<close> counts the seconds slept so far, in
  steps of \<^verbatim>\<open>checkInterval = 2\<close> up to \<^verbatim>\<open>maxWaitTime = 30\<close>.
\<close>

function waitForListening :: "string \<Rightarrow> nat \<Rightarrow> unit io" where
  "waitForListening logsCmd waited w =
     (if waited < 30 then
        (case exec logsCmd w of
           (Inl e, w') \<Rightarrow> (Inl e, w')
         | (Inr logsResult, w') \<Rightarrow>
             if exitCode logsResult = 0 then (Inr (), w')
             else waitForListening logsCmd (waited + 2) w')
      else (Inl (Error ''Gateway failed to start within 30 seconds''), w))"
  by pat_completeness auto
termination
  by (relation "measure (\<lambda>(logsCmd, waited, w). 30 - waited)") auto

definition startGateway :: "UserInfo \<Rightarrow> unit io" where
  \<open>startGateway userInfo =
     (let composeDir = home userInfo @ ''/docker'';
          startCmd = ''cd '' @ composeDir @ '' && sudo -u '' @ username userInfo @
            '' docker compose up -d --force-recreate openclaw-gateway''
      in andThen (execStream startCmd) (\<lambda>result.
           if result \<noteq> 0 then throw ''Failed to start gateway''
           else
             waitForListening
               (''cd '' @ composeDir @ '' && sudo -u '' @ username userInfo @
                '' docker compose logs --tail 20 openclaw-gateway 2>/dev/null | grep -q "listening on"'')
               0))\<close>

section \<open>Configuration and the local machine (lib/config.ts, lib/artifact.ts)\<close>

definition validOctet :: "string \<Rightarrow> bool" where
  "validOctet part =
     (1 \<le> length part \<and> length part \<le> 3 \<and> list_all isDigit part \<and> decimal part \<le> 255)"

definition validateIP :: "string \<Rightarrow> bool" where
  "validateIP addr =
     (let parts = splitOn CHR ''.'' addr
      in length parts = 4 \<and> list_all validOctet parts)"

text \<open>
  What happens on the operator's machine is not computed by the model but given: whether
  \<^verbatim>\<open>loadConfig\<close> resolves (and to which configuration) or throws, whether
  \<^verbatim>\<open>validateSSHKey\<close> and the read of the key file throw, whether
  \<^verbatim>\<open>createInstanceArtifact\<close> can write its file, what the operator answers to the
  auto-connect prompt, and whether the tunnel process is still running after two seconds.
\<close>

record localMachine =
  loadConfigResult :: "DeploymentConfig option"
  sshKeyValid :: bool
  sshKeyReadable :: bool
  artifactWritable :: bool
  promptAnswer :: string
  tunnelRunning :: bool

definition loadConfig :: "localMachine \<Rightarrow> DeploymentConfig io" where
  "loadConfig lm =
     (case loadConfigResult lm of
        None \<Rightarrow> throw ''configuration could not be resolved''
      | Some config \<Rightarrow> ret config)"

definition validateSSHKey :: "localMachine \<Rightarrow> unit io" where
  "validateSSHKey lm = (if sshKeyValid lm then ret () else throw ''SSH key not found'')"

definition readKeyFile :: "localMachine \<Rightarrow> unit io" where
  "readKeyFile lm = (if sshKeyReadable lm then ret () else throw ''EACCES'')"

definition createInstanceArtifact :: "localMachine \<Rightarrow> unit io" where
  "createInstanceArtifact lm =
     (if artifactWritable lm then ret () else throw ''artifact could not be written'')"

section \<open>Pairing automation (lib/auto-connect.ts)\<close>

record PairingRequest =
  requestId :: string
  deviceId :: string
  requestIp :: string
  age :: string

definition promptAutoConnect :: "localMachine \<Rightarrow> bool" where
  "promptAutoConnect lm = (promptAnswer lm \<noteq> ''n'' \<and> promptAnswer lm \<noteq> ''N'')"

text \<open>The table column separator, U+2502, in UTF-8.\<close>

definition BOX :: string where
  "BOX = [CHR 0xE2, CHR 0x94, CHR 0x82]"

function splitStr :: "string \<Rightarrow> string \<Rightarrow> string list" where
  "splitStr sep [] = [[]]"
| "splitStr sep (c # cs) =
     (if sep \<noteq> [] \<and> startsWith (c # cs) sep then [] # splitStr sep (drop (length sep - 1) cs)
      else (case splitStr sep cs of
              [] \<Rightarrow> [[c]]
            | part # parts \<Rightarrow> (c # part) # parts))"
  by pat_completeness auto
termination
  by (relation "measure (\<lambda>(sep, s). length s)") auto

definition isRequestId :: "string \<Rightarrow> bool" where
  "isRequestId s = (length s = 36 \<and> list_all (\<lambda>c. c \<in> set ''0123456789abcdef-'') s)"

text \<open>
  The body of the loop over the lines of the table: the state of the loop is the flag
  \<^verbatim>\<open>inPending\<close> and the requests pushed so far.
\<close>

definition parseLine :: "bool \<times> PairingRequest list \<Rightarrow> string \<Rightarrow> bool \<times> PairingRequest list" where
  "parseLine acc line =
     (case acc of (inPending, requests) \<Rightarrow>
        if includesStr line ''Pending ('' then (True, requests)
        else if includesStr line ''Paired ('' then (False, requests)
        else if inPending \<and> startsWith line BOX \<and> \<not> includesStr line ''Request'' then
          (let parts = filter (\<lambda>p. p \<noteq> []) (map trim (splitStr BOX line))
           in if length parts \<ge> 4 \<and> isRequestId (parts ! 0)
              then (inPending,
                    requests @ [\<lparr>requestId = parts ! 0, deviceId = parts ! 1,
                                 requestIp = parts ! 3,
                                 age = (if length parts > 4 then parts ! 4 else [])\<rparr>])
              else (inPending, requests))
        else (inPending, requests))"

definition parsePending :: "string \<Rightarrow> PairingRequest list" where
  "parsePending out = snd (foldl parseLine (False, []) (splitOn (CHR 0x0A) out))"

definition DEVICES_CMD :: "UserInfo \<Rightarrow> string" where
  "DEVICES_CMD userInfo =
     ''cd '' @ home userInfo @ ''/docker && sudo -u '' @ username userInfo @
     '' docker compose exec -T openclaw-gateway node dist/index.js devices ''"

definition getPendingRequests :: "UserInfo \<Rightarrow> PairingRequest list io" where
  "getPendingRequests userInfo =
     tryCatch
       (andThen (exec (DEVICES_CMD userInfo @ ''list 2>/dev/null'')) (\<lambda>result.
          if exitCode result \<noteq> 0 then ret []
          else ret (parsePending (stdout result))))
       (\<lambda>error. ret [])"

text \<open>
  \<^verbatim>\<open>waitForNewPairingRequest\<close>: the clock of the model advances only while the code
  sleeps, so \<^verbatim>\<open>Date.now() - startTime\<close> is the time slept so far, \<open>elapsed\<close>.
  \<^verbatim>\<open>existingIds.has\<close> is membership in the list of the ids snapshotted.
\<close>

function waitLoop :: "UserInfo \<Rightarrow> string list \<Rightarrow> nat \<Rightarrow> nat \<Rightarrow> PairingRequest option io" where
  "waitLoop userInfo existingIds timeoutMs elapsed w =
     (if elapsed < timeoutMs then
        (case getPendingRequests userInfo w of
           (Inl e, w') \<Rightarrow> (Inl e, w')
         | (Inr requests, w') \<Rightarrow>
             (case find (\<lambda>req. requestId req \<notin> set existingIds) requests of
                Some req \<Rightarrow> (Inr (Some req), w')
              | None \<Rightarrow> waitLoop userInfo existingIds timeoutMs (elapsed + 2000) w'))
      else (Inr None, w))"
  by pat_completeness auto
termination
  by (relation "measure (\<lambda>(userInfo, existingIds, timeoutMs, elapsed, w). timeoutMs - elapsed)")
    auto

definition waitForNewPairingRequest ::
  "UserInfo \<Rightarrow> string list \<Rightarrow> nat \<Rightarrow> PairingRequest option io" where
  "waitForNewPairingRequest userInfo existingIds timeoutMs =
     waitLoop userInfo existingIds timeoutMs 0"

definition approveDevice :: "UserInfo \<Rightarrow> string \<Rightarrow> bool io" where
  "approveDevice userInfo rid =
     tryCatch
       (andThen (exec (DEVICES_CMD userInfo @ ''approve '' @ rid)) (\<lambda>result.
          ret (exitCode result = 0)))
       (\<lambda>error. ret False)"

text \<open>
  \<^verbatim>\<open>autoConnect\<close>. Spawning the tunnel and the browser and waiting for the operator's
  interrupt happen on the local machine and leave the world of the model as it is.
\<close>

definition autoConnect :: "localMachine \<Rightarrow> UserInfo \<Rightarrow> unit io" where
  "autoConnect lm userInfo =
     (if \<not> promptAutoConnect lm then ret ()
      else
        andThen (getPendingRequests userInfo) (\<lambda>existingRequests.
          (let existingIds = map requestId existingRequests in
           if \<not> tunnelRunning lm then ret ()
           else
             andThen (waitForNewPairingRequest userInfo existingIds 60000) (\<lambda>newRequest.
               case newRequest of
                 None \<Rightarrow> ret ()
               | Some req \<Rightarrow>
                   andThen (approveDevice userInfo (requestId req)) (\<lambda>approved. ret ())))))"

section \<open>The deploy command (commands/deploy.ts)\<close>

function connectLoop :: "nat \<Rightarrow> unit io" where
  "connectLoop attempt w =
     (if attempt \<le> 3 then
        (case nextReply (w\<lparr>trace := trace w @ [ConnectAttempt attempt]\<rparr>) of
           (Rejects, w') \<Rightarrow>
             if attempt = 3 then (Inl (Error ''SSH connection failed after 3 attempts''), w')
             else connectLoop (attempt + 1) w'
         | (Reply code out err, w') \<Rightarrow> (Inr (), w'\<lparr>connected := True\<rparr>))
      else (Inr (), w))"
  by pat_completeness auto
termination
  by (relation "measure (\<lambda>(attempt, w). 4 - attempt)") auto

definition connect :: "unit io" where
  "connect w = (if connected w then (Inr (), w) else connectLoop 1 w)"

definition disconnect :: "world \<Rightarrow> world" where
  "disconnect w = (if connected w then w\<lparr>connected := False\<rparr> else w)"

definition verifyRootAccess :: "bool io" where
  "verifyRootAccess =
     andThen (exec ''id -u'') (\<lambda>result.
       ret (exitCode result = 0 \<and> trim (stdout result) = ''0''))"

definition cleanDeployment :: "unit io" where
  \<open>cleanDeployment =
     andThen (exec ''docker ps -aq | xargs -r docker stop 2>/dev/null || true'') (\<lambda>r1.
     andThen (exec ''docker ps -aq | xargs -r docker rm 2>/dev/null || true'') (\<lambda>r2.
     andThen (exec (''docker images -q "roboclaw/openclaw:local" "openclaw:local" '' @
                    ''| xargs -r docker rmi 2>/dev/null || true'')) (\<lambda>r3.
     andThen (exec ''userdel -r roboclaw 2>/dev/null || true'') (\<lambda>r4.
     andThen (exec ''rm -rf /root/docker /root/openclaw-build 2>/dev/null || true'') (\<lambda>r5.
     andThen (exec CLEAN_STATE_CMD) (\<lambda>r6. ret ()))))))\<close>

text \<open>
  The prelude of \<^verbatim>\<open>deployCommand\<close>: validation and configuration, phase 1 (connection
  and the check of root access), the clean-up on request, and the search for a partial
  deployment. It returns the configuration and \<^verbatim>\<open>existingState\<close>.
\<close>

definition resumeCheck :: "runtime \<Rightarrow> DeploymentConfig \<Rightarrow> DeploymentState option io" where
  "resumeCheck rt config =
     andThen (detectPartialDeployment rt) (\<lambda>existingState.
       if existingState \<noteq> None \<and> force config
       then andThen deleteState (\<lambda>u. ret None)
       else ret existingState)"

definition prelude ::
  "runtime \<Rightarrow> localMachine \<Rightarrow> string \<Rightarrow> (DeploymentConfig \<times> DeploymentState option) io" where
  "prelude rt lm flagsIp =
     (if \<not> validateIP flagsIp then processExit 1
      else
        andThen (loadConfig lm) (\<lambda>config.
        andThen (tryCatch (validateSSHKey lm) (\<lambda>error. processExit 1)) (\<lambda>u1.
        andThen (readKeyFile lm) (\<lambda>u2.
        andThen (logEvent (LogPhase 1)) (\<lambda>u3.
        andThen connect (\<lambda>u4.
        andThen verifyRootAccess (\<lambda>isRoot.
          if \<not> isRoot then processExit 2
          else
            andThen (if clean config then cleanDeployment else ret ()) (\<lambda>u5.
            andThen (resumeCheck rt config) (\<lambda>existingState.
              ret (config, existingState))))))))))"

text \<open>
  \<^verbatim>\<open>!existingState || !state.isPhaseComplete(existingState, n)\<close>, the condition under
  which phase \<open>n\<close> runs its action. The local variable \<^verbatim>\<open>deployUser\<close> of the source is
  written \<open>deployUser'\<close>, the plain name being a field of the metadata.
\<close>

fun needsRun :: "DeploymentState option \<Rightarrow> nat \<Rightarrow> bool" where
  "needsRun None n = True"
| "needsRun (Some existingState) n = (\<not> isPhaseComplete existingState n)"

definition skipPhase :: "nat \<Rightarrow> unit io" where
  "skipPhase n = andThen (logEvent (LogPhase n)) (\<lambda>u. logEvent LogSkip)"

definition phase2 :: "runtime \<Rightarrow> DeploymentState option \<Rightarrow> unit io" where
  "phase2 rt existingState =
     (if needsRun existingState 2 then
        andThen (logEvent (LogPhase 2)) (\<lambda>u.
        andThen installBasePackages (\<lambda>u'.
          if existingState \<noteq> None then updateState rt 2 complete else ret ()))
      else skipPhase 2)"

definition phase3 :: "runtime \<Rightarrow> DeploymentState option \<Rightarrow> unit io" where
  "phase3 rt existingState =
     (if needsRun existingState 3 then
        andThen (logEvent (LogPhase 3)) (\<lambda>u.
        andThen installDocker (\<lambda>info.
          if existingState \<noteq> None then updateState rt 3 complete else ret ()))
      else skipPhase 3)"

fun userFromState :: "DeploymentState option \<Rightarrow> UserInfo" where
  "userFromState (Some existingState) =
     \<lparr>username = deployUser (metadata existingState),
      uid = deployUid (metadata existingState),
      gid = deployGid (metadata existingState),
      home = deployHome (metadata existingState),
      inDockerGroup = True\<rparr>"
| "userFromState None = undefined"

fun imageFromState :: "DeploymentState option \<Rightarrow> string" where
  "imageFromState (Some existingState) = image (metadata existingState)"
| "imageFromState None = undefined"

definition phase4 :: "runtime \<Rightarrow> DeploymentConfig \<Rightarrow> DeploymentState option \<Rightarrow> UserInfo io" where
  "phase4 rt config existingState =
     (if needsRun existingState 4 then
        andThen (logEvent (LogPhase 4)) (\<lambda>u.
        andThen createDeploymentUser (\<lambda>deployUser'.
        andThen
          (if existingState = None then
             createState rt (configInstanceName config)
               \<lparr>deployUser = username deployUser',
                deployUid = uid deployUser',
                deployGid = gid deployUser',
                deployHome = home deployUser',
                image = ''roboclaw/openclaw:local'',
                branch = configBranch config\<rparr>
           else ret ())
          (\<lambda>u'.
        andThen (updateState rt 4 complete) (\<lambda>u''. ret deployUser'))))
      else andThen (skipPhase 4) (\<lambda>u. ret (userFromState existingState)))"

definition phase5 :: "runtime \<Rightarrow> DeploymentState option \<Rightarrow> UserInfo \<Rightarrow> unit io" where
  "phase5 rt existingState deployUser' =
     (if needsRun existingState 5 then
        andThen (logEvent (LogPhase 5)) (\<lambda>u.
        andThen (createDirectories deployUser') (\<lambda>u'.
          updateState rt 5 complete))
      else skipPhase 5)"

definition phase6 ::
  "runtime \<Rightarrow> DeploymentConfig \<Rightarrow> DeploymentState option \<Rightarrow> UserInfo \<Rightarrow> string io" where
  "phase6 rt config existingState deployUser' =
     (if needsRun existingState 6 then
        andThen (logEvent (LogPhase 6)) (\<lambda>u.
        andThen (buildImage deployUser' (configBranch config)) (\<lambda>imageName.
        andThen (updateState rt 6 complete) (\<lambda>u'. ret imageName)))
      else andThen (skipPhase 6) (\<lambda>u. ret (imageFromState existingState)))"

definition phase7 ::
  "runtime \<Rightarrow> DeploymentState option \<Rightarrow> UserInfo \<Rightarrow> string \<Rightarrow> unit io" where
  "phase7 rt existingState deployUser' imageName =
     (if needsRun existingState 7 then
        andThen (logEvent (LogPhase 7)) (\<lambda>u.
        andThen (uploadComposeFiles rt deployUser' imageName) (\<lambda>u'.
          updateState rt 7 complete))
      else skipPhase 7)"

definition phase8 ::
  "runtime \<Rightarrow> DeploymentConfig \<Rightarrow> DeploymentState option \<Rightarrow> UserInfo \<Rightarrow> string option io" where
  "phase8 rt config existingState deployUser' =
     (if needsRun existingState 8 then
        andThen (logEvent (LogPhase 8)) (\<lambda>u.
        andThen (runOnboarding deployUser' (skipOnboard config)) (\<lambda>u'.
        andThen (extractGatewayToken rt deployUser') (\<lambda>gatewayToken.
        andThen
          (case gatewayToken of
             Some token \<Rightarrow>
               andThen
                 (exec (''cd '' @ home deployUser' @ ''/docker && sudo -u '' @
                        username deployUser' @
                        '' docker compose stop openclaw-gateway 2>/dev/null || true''))
                 (\<lambda>r.
               andThen (updateEnvToken deployUser' token) (\<lambda>u''.
                 startGateway deployUser'))
           | None \<Rightarrow> ret ())
          (\<lambda>u''.
        andThen (updateState rt 8 complete) (\<lambda>u'''. ret gatewayToken)))))
      else andThen (skipPhase 8) (\<lambda>u. extractGatewayToken rt deployUser'))"

text \<open>
  The run of \<^verbatim>\<open>deployCommand\<close> from its start through phase \<open>k\<close>: \<open>through k\<close> returns
  normally exactly when the run stands before phase \<open>k + 1\<close>, with the values of the local
  variables assigned so far.
\<close>

definition through2 ::
  "runtime \<Rightarrow> localMachine \<Rightarrow> string \<Rightarrow> (DeploymentConfig \<times> DeploymentState option) io" where
  "through2 rt lm flagsIp =
     andThen (prelude rt lm flagsIp) (\<lambda>(config, existingState).
     andThen (phase2 rt existingState) (\<lambda>u. ret (config, existingState)))"

definition through3 ::
  "runtime \<Rightarrow> localMachine \<Rightarrow> string \<Rightarrow> (DeploymentConfig \<times> DeploymentState option) io" where
  "through3 rt lm flagsIp =
     andThen (through2 rt lm flagsIp) (\<lambda>(config, existingState).
     andThen (phase3 rt existingState) (\<lambda>u. ret (config, existingState)))"

definition through4 ::
  "runtime \<Rightarrow> localMachine \<Rightarrow> string \<Rightarrow>
   (DeploymentConfig \<times> DeploymentState option \<times> UserInfo) io" where
  "through4 rt lm flagsIp =
     andThen (through3 rt lm flagsIp) (\<lambda>(config, existingState).
     andThen (phase4 rt config existingState) (\<lambda>deployUser'.
       ret (config, existingState, deployUser')))"

definition through5 ::
  "runtime \<Rightarrow> localMachine \<Rightarrow> string \<Rightarrow>
   (DeploymentConfig \<times> DeploymentState option \<times> UserInfo) io" where
  "through5 rt lm flagsIp =
     andThen (through4 rt lm flagsIp) (\<lambda>(config, existingState, deployUser').
     andThen (phase5 rt existingState deployUser') (\<lambda>u.
       ret (config, existingState, deployUser')))"

definition through6 ::
  "runtime \<Rightarrow> localMachine \<Rightarrow> string \<Rightarrow>
   (DeploymentConfig \<times> DeploymentState option \<times> UserInfo \<times> string) io" where
  "through6 rt lm flagsIp =
     andThen (through5 rt lm flagsIp) (\<lambda>(config, existingState, deployUser').
     andThen (phase6 rt config existingState deployUser') (\<lambda>imageName.
       ret (config, existingState, deployUser', imageName)))"

definition through7 ::
  "runtime \<Rightarrow> localMachine \<Rightarrow> string \<Rightarrow>
   (DeploymentConfig \<times> DeploymentState option \<times> UserInfo \<times> string) io" where
  "through7 rt lm flagsIp =
     andThen (through6 rt lm flagsIp) (\<lambda>(config, existingState, deployUser', imageName).
     andThen (phase7 rt existingState deployUser' imageName) (\<lambda>u.
       ret (config, existingState, deployUser', imageName)))"

definition through8 ::
  "runtime \<Rightarrow> localMachine \<Rightarrow> string \<Rightarrow>
   (DeploymentConfig \<times> DeploymentState option \<times> UserInfo \<times> string \<times> string option) io" where
  "through8 rt lm flagsIp =
     andThen (through7 rt lm flagsIp) (\<lambda>(config, existingState, deployUser', imageName).
     andThen (phase8 rt config existingState deployUser') (\<lambda>gatewayToken.
       ret (config, existingState, deployUser', imageName, gatewayToken)))"

definition through9 ::
  "runtime \<Rightarrow> localMachine \<Rightarrow> string \<Rightarrow>
   (DeploymentConfig \<times> DeploymentState option \<times> UserInfo \<times> string \<times> string option) io" where
  "through9 rt lm flagsIp =
     andThen (through8 rt lm flagsIp)
       (\<lambda>(config, existingState, deployUser', imageName, gatewayToken).
     andThen (logEvent (LogPhase 9)) (\<lambda>u1.
     andThen (createInstanceArtifact lm) (\<lambda>u2.
       ret (config, existingState, deployUser', imageName, gatewayToken))))"

text \<open>The body of the \<^verbatim>\<open>try\<close> block: phase 10 and the auto-connect follow.\<close>

definition deployBody :: "runtime \<Rightarrow> localMachine \<Rightarrow> string \<Rightarrow> unit io" where
  "deployBody rt lm flagsIp =
     andThen (through9 rt lm flagsIp)
       (\<lambda>(config, existingState, deployUser', imageName, gatewayToken).
     andThen (logEvent (LogPhase 10)) (\<lambda>u3.
     andThen deleteState (\<lambda>u4.
       if \<not> noAutoConnect config then autoConnect lm deployUser' else ret ())))"

text \<open>
  \<^verbatim>\<open>deployCommand\<close>: the \<^verbatim>\<open>catch\<close> block exits with status 1 whatever was thrown; the
  \<^verbatim>\<open>finally\<close> block disconnects, and is reached only when the body returns, since
  \<^verbatim>\<open>process.exit\<close> does not return.
\<close>

datatype outcome = Returned | Exit nat

definition deployCommand :: "runtime \<Rightarrow> localMachine \<Rightarrow> string \<Rightarrow> world \<Rightarrow> outcome \<times> world" where
  "deployCommand rt lm flagsIp w =
     (case deployBody rt lm flagsIp w of
        (Inr u, w') \<Rightarrow> (Returned, disconnect w')
      | (Inl (Error msg), w') \<Rightarrow> (Exit 1, w')
      | (Inl (ProcessExit n), w') \<Rightarrow> (Exit n, w'))"

section \<open>Observations on a run\<close>

text \<open>
  \<open>worldBefore k\<close> is the world in which phase \<open>k\<close> is about to begin, if the run gets
  there (\<open>3 \<le> k \<le> 10\<close>); \<open>existingStateOf\<close> is the value of \<^verbatim>\<open>existingState\<close> after the
  prelude, \<open>None\<close> also when the prelude does not return.
\<close>

definition returned :: "'a io \<Rightarrow> world \<Rightarrow> world option" where
  "returned m w = (case m w of (Inr x, w') \<Rightarrow> Some w' | (Inl e, w') \<Rightarrow> None)"

definition worldBefore ::
  "nat \<Rightarrow> runtime \<Rightarrow> localMachine \<Rightarrow> string \<Rightarrow> world \<Rightarrow> world option" where
  "worldBefore k rt lm flagsIp w =
     (if k = 3 then returned (through2 rt lm flagsIp) w
      else if k = 4 then returned (through3 rt lm flagsIp) w
      else if k = 5 then returned (through4 rt lm flagsIp) w
      else if k = 6 then returned (through5 rt lm flagsIp) w
      else if k = 7 then returned (through6 rt lm flagsIp) w
      else if k = 8 then returned (through7 rt lm flagsIp) w
      else if k = 9 then returned (through8 rt lm flagsIp) w
      else if k = 10 then returned (through9 rt lm flagsIp) w
      else None)"

definition existingStateOf ::
  "runtime \<Rightarrow> localMachine \<Rightarrow> string \<Rightarrow> world \<Rightarrow> DeploymentState option" where
  "existingStateOf rt lm flagsIp w =
     (case prelude rt lm flagsIp w of
        (Inr (config, existingState), w') \<Rightarrow> existingState
      | (Inl e, w') \<Rightarrow> None)"

text \<open>The state the file on the host holds, as \<^verbatim>\<open>loadState\<close> would read it.\<close>

definition persisted :: "runtime \<Rightarrow> world \<Rightarrow> DeploymentState option" where
  "persisted rt w = (case stateFile w of None \<Rightarrow> None | Some content \<Rightarrow> JSON_parse rt content)"

definition recorded :: "runtime \<Rightarrow> world \<Rightarrow> nat \<Rightarrow> bool" where
  "recorded rt w n = (case persisted rt w of None \<Rightarrow> False | Some state \<Rightarrow> isPhaseComplete state n)"

text \<open>
  \<open>principalBefore k\<close> is the value of the local variable \<^verbatim>\<open>deployUser\<close> when phase \<open>k\<close> is
  about to begin, if the run gets there (\<open>5 \<le> k \<le> 10\<close>): what phases 5 to 8 are given,
  then the artifact (\<open>k = 9\<close>), and the pairing automation that follows phase 10.
\<close>

definition principalBefore ::
  "nat \<Rightarrow> runtime \<Rightarrow> localMachine \<Rightarrow> string \<Rightarrow> world \<Rightarrow> UserInfo option" where
  "principalBefore k rt lm flagsIp w =
     (if k = 5 then
        (case through4 rt lm flagsIp w of
           (Inr (config, existingState, deployUser'), w') \<Rightarrow> Some deployUser'
         | (Inl e, w') \<Rightarrow> None)
      else if k = 6 then
        (case through5 rt lm flagsIp w of
           (Inr (config, existingState, deployUser'), w') \<Rightarrow> Some deployUser'
         | (Inl e, w') \<Rightarrow> None)
      else if k = 7 then
        (case through6 rt lm flagsIp w of
           (Inr (config, existingState, deployUser', imageName), w') \<Rightarrow> Some deployUser'
         | (Inl e, w') \<Rightarrow> None)
      else if k = 8 then
        (case through7 rt lm flagsIp w of
           (Inr (config, existingState, deployUser', imageName), w') \<Rightarrow> Some deployUser'
         | (Inl e, w') \<Rightarrow> None)
      else if k = 9 then
        (case through8 rt lm flagsIp w of
           (Inr (config, existingState, deployUser', imageName, gatewayToken), w') \<Rightarrow>
             Some deployUser'
         | (Inl e, w') \<Rightarrow> None)
      else if k = 10 then
        (case through9 rt lm flagsIp w of
           (Inr (config, existingState, deployUser', imageName, gatewayToken), w') \<Rightarrow>
             Some deployUser'
         | (Inl e, w') \<Rightarrow> None)
      else None)"

text \<open>
  What an action did between the world \<open>w\<close> it started in and the world \<open>w'\<close> it left:
  \<open>issued w w'\<close> lists the requests it added to the trace, \<open>answers w w'\<close> the scripted
  replies it consumed, both in order. A request other than a read or a removal of the state
  file consumes one reply, so that for an action making only such requests the two lists
  run in step: the \<open>i\<close>-th reply answers the \<open>i\<close>-th request.
\<close>

definition issued :: "world \<Rightarrow> world \<Rightarrow> event list" where
  "issued w w' = drop (length (trace w)) (trace w')"

definition answers :: "world \<Rightarrow> world \<Rightarrow> reply list" where
  "answers w w' = take (length (replies w) - length (replies w')) (replies w)"

text \<open>
  The phases a trace logs, in order, each with whether the line
  \<^verbatim>\<open>(skip - already complete)\<close> follows its header at once: \<open>(n, True)\<close> is a phase skipped,
  \<open>(n, False)\<close> a phase whose action was started.
\<close>

fun isLog :: "event \<Rightarrow> bool" where
  "isLog (LogPhase n) = True"
| "isLog LogSkip = True"
| "isLog e = False"

fun phaseLog :: "event list \<Rightarrow> (nat \<times> bool) list" where
  "phaseLog [] = []"
| "phaseLog (LogPhase n # LogSkip # es) = (n, True) # phaseLog es"
| "phaseLog (LogPhase n # es) = (n, False) # phaseLog es"
| "phaseLog (e # es) = phaseLog es"

text \<open>An action that leaves the state file and the connection as they are.\<close>

definition quiet :: "'a io \<Rightarrow> bool" where
  "quiet m = (\<forall>w. stateFile (snd (m w)) = stateFile w \<and> connected (snd (m w)) = connected w)"

definition stateCommand :: "string \<Rightarrow> bool" where
  "stateCommand command =
     (command = ''cat '' @ STATE_FILE \<or> command = ''rm -f '' @ STATE_FILE \<or>
      command = CLEAN_STATE_CMD)"

text \<open>
  The property of the built-ins that the state module relies on: a state written with
  \<^verbatim>\<open>JSON.stringify\<close> is read back by \<^verbatim>\<open>JSON.parse\<close>.
\<close>

definition roundTrip :: "runtime \<Rightarrow> bool" where
  "roundTrip rt = (\<forall>state. JSON_parse rt (JSON_stringify rt state) = Some state)"

text \<open>
  \<open>establishes P m Q\<close>: from a world with \<open>P\<close>, whenever \<open>m\<close> returns a value \<open>x\<close>, the
  world it leaves satisfies \<open>Q x\<close>. \<open>stateInv rt R\<close>: the session is connected, the state
  file holds a readable state, and that state marks every phase of \<open>R\<close> complete.
  \<open>standing rt existingState k\<close> is what holds when phases up to \<open>k\<close> are behind.
\<close>

definition establishes :: "(world \<Rightarrow> bool) \<Rightarrow> 'a io \<Rightarrow> ('a \<Rightarrow> world \<Rightarrow> bool) \<Rightarrow> bool" where
  "establishes P m Q = (\<forall>w x w'. P w \<longrightarrow> m w = (Inr x, w') \<longrightarrow> Q x w')"

definition stateInv :: "runtime \<Rightarrow> nat set \<Rightarrow> world \<Rightarrow> bool" where
  "stateInv rt R w = (connected w \<and> persisted rt w \<noteq> None \<and> (\<forall>n\<in>R. recorded rt w n))"

definition standing :: "runtime \<Rightarrow> DeploymentState option \<Rightarrow> nat \<Rightarrow> world \<Rightarrow> bool" where
  "standing rt existingState k w =
     (connected w \<and>
      (existingState \<noteq> None \<longrightarrow> stateInv rt ({n. \<not> needsRun existingState n} \<union> {2..k}) w) \<and>
      (existingState = None \<longrightarrow> 4 \<le> k \<longrightarrow> stateInv rt {4..k} w))"

section \<open>A runtime and hosts to run the model on\<close>

text \<open>
  To evaluate the model on examples the parameters must be concrete. The sample runtime
  writes a state in a length-prefixed text format in place of JSON (numbers in unary, a
  string after its length); reading back what was written returns the state, which is
  all the theorems ask of the built-ins.
\<close>

fun encNat :: "nat \<Rightarrow> string" where
  "encNat 0 = ''.''"
| "encNat (Suc n) = CHR ''|'' # encNat n"

fun decNat :: "string \<Rightarrow> (nat \<times> string) option" where
  "decNat [] = None"
| "decNat (c # cs) =
     (if c = CHR ''.'' then Some (0, cs)
      else if c = CHR ''|'' then map_option (\<lambda>(n, r). (Suc n, r)) (decNat cs)
      else None)"

definition encStr :: "string \<Rightarrow> string" where
  "encStr s = encNat (length s) @ s"

definition decStr :: "string \<Rightarrow> (string \<times> string) option" where
  "decStr t =
     (case decNat t of
        None \<Rightarrow> None
      | Some (n, r) \<Rightarrow> if length r < n then None else Some (take n r, drop n r))"

fun encStatus :: "PhaseStatus \<Rightarrow> char" where
  "encStatus pending = CHR ''p''"
| "encStatus complete = CHR ''c''"
| "encStatus failed = CHR ''f''"

definition decStatus :: "string \<Rightarrow> (PhaseStatus \<times> string) option" where
  "decStatus t =
     (case t of
        [] \<Rightarrow> None
      | c # r \<Rightarrow>
          if c = CHR ''p'' then Some (pending, r)
          else if c = CHR ''c'' then Some (complete, r)
          else if c = CHR ''f'' then Some (failed, r)
          else None)"

fun encPhases :: "(nat \<times> PhaseStatus) list \<Rightarrow> string" where
  "encPhases [] = '';''"
| "encPhases ((k, v) # ps) = CHR '','' # encNat k @ encStatus v # encPhases ps"

function decPhases :: "string \<Rightarrow> ((nat \<times> PhaseStatus) list \<times> string) option" where
  "decPhases [] = None"
| "decPhases (c # cs) =
     (if c = CHR '';'' then Some ([], cs)
      else if c = CHR '','' then
        (case decNat cs of
           None \<Rightarrow> None
         | Some (k, r) \<Rightarrow>
             (case decStatus r of
                None \<Rightarrow> None
              | Some (v, r') \<Rightarrow>
                  if length r' < length cs
                  then map_option (\<lambda>(ps, r''). ((k, v) # ps, r'')) (decPhases r')
                  else None))
      else None)"
  by pat_completeness auto
termination
  by (relation "measure length") auto

definition encState :: "DeploymentState \<Rightarrow> string" where
  "encState s =
     encStr (instanceName s) @ encStr (deploymentId s) @ encStr (startedAt s) @
     encNat (lastPhase s) @ encPhases (phases s) @
     encStr (deployUser (metadata s)) @ encNat (deployUid (metadata s)) @
     encNat (deployGid (metadata s)) @ encStr (deployHome (metadata s)) @
     encStr (image (metadata s)) @ encStr (branch (metadata s))"

definition decState :: "string \<Rightarrow> DeploymentState option" where
  "decState t0 =
     Option.bind (decStr t0) (\<lambda>(name, t1).
     Option.bind (decStr t1) (\<lambda>(ident, t2).
     Option.bind (decStr t2) (\<lambda>(started, t3).
     Option.bind (decNat t3) (\<lambda>(lastp, t4).
     Option.bind (decPhases t4) (\<lambda>(ps, t5).
     Option.bind (decStr t5) (\<lambda>(user, t6).
     Option.bind (decNat t6) (\<lambda>(u, t7).
     Option.bind (decNat t7) (\<lambda>(g, t8).
     Option.bind (decStr t8) (\<lambda>(h, t9).
     Option.bind (decStr t9) (\<lambda>(img, t10).
     Option.bind (decStr t10) (\<lambda>(br, t11).
       if t11 = [] then
         Some \<lparr>instanceName = name, deploymentId = ident, startedAt = started,
               lastPhase = lastp, phases = ps,
               metadata = \<lparr>deployUser = user, deployUid = u, deployGid = g,
                            deployHome = h, image = img, branch = br\<rparr>\<rparr>
       else None)))))))))))"

definition sampleRuntime :: runtime where
  "sampleRuntime =
     \<lparr>JSON_parse = decState, JSON_stringify = encState,
      generateUUID = ''0b9d6a3e-5c1f-4e7a-8d2b-3f4a5b6c7d8e'',
      nowISOString = ''2026-02-04T15:30:00.000Z'',
      JSON_gatewayToken = (\<lambda>text. None),
      generateDockerCompose = ''services: {}''\<rparr>"

definition sampleConfig :: DeploymentConfig where
  "sampleConfig =
     \<lparr>ip = ''203.0.113.10'', configInstanceName = ''instance-203-0-113-10'',
      ssh = \<lparr>host = ''203.0.113.10'', port = 22, sshUsername = ''root'',
             privateKeyPath = ''/home/op/.ssh/id_ed25519''\<rparr>,
      configBranch = ''main'', skipOnboard = False, noAutoConnect = True,
      force = False, clean = False, verbose = False\<rparr>"

definition sampleLocal :: localMachine where
  "sampleLocal =
     \<lparr>loadConfigResult = Some sampleConfig, sshKeyValid = True, sshKeyReadable = True,
      artifactWritable = True, promptAnswer = ''y'', tunnelRunning = True\<rparr>"

text \<open>A host before any connection, with the state file and the replies given.\<close>

definition hostWith :: "string option \<Rightarrow> reply list \<Rightarrow> world" where
  "hostWith file rs = \<lparr>connected = False, stateFile = file, replies = rs, trace = []\<rparr>"

definition ok :: reply where
  "ok = Reply 0 [] []"

definition USER_INFO_OUTPUT :: string where
  "USER_INFO_OUTPUT =
     ''uid=7(roboclaw) gid=7(roboclaw) groups=7(roboclaw),998(docker)\<newline>'' @
     ''/home/roboclaw\<newline>roboclaw : roboclaw docker\<newline>''"

text \<open>
  The replies of a fresh host up to phase 4: the connection, \<^verbatim>\<open>id -u\<close>, the checks of
  phases 2 and 3 (already satisfied), \<^verbatim>\<open>id roboclaw\<close>, the user information, and the two
  uploads of the state file.
\<close>

definition repliesToPhase4 :: "reply list" where
  "repliesToPhase4 =
     [ok, Reply 0 ''0\<newline>'' [], ok, ok, ok, Reply 0 USER_INFO_OUTPUT [], ok, ok]"

text \<open>The state a fresh run has written when phase 4 is behind, and a host that holds it.\<close>

definition sampleState :: DeploymentState where
  "sampleState =
     \<lparr>instanceName = ''instance-203-0-113-10'',
      deploymentId = ''0b9d6a3e-5c1f-4e7a-8d2b-3f4a5b6c7d8e'',
      startedAt = ''2026-02-04T15:30:00.000Z'',
      lastPhase = 4,
      phases = [(1, pending), (2, pending), (3, pending), (4, complete), (5, pending),
                (6, pending), (7, pending), (8, pending), (9, pending), (10, pending)],
      metadata = \<lparr>deployUser = ''roboclaw'', deployUid = 7, deployGid = 7,
                   deployHome = ''/home/roboclaw'', image = ''roboclaw/openclaw:local'',
                   branch = ''main''\<rparr>\<rparr>"

definition sessionWith :: "string option \<Rightarrow> reply list \<Rightarrow> world" where
  "sessionWith file rs = \<lparr>connected = True, stateFile = file, replies = rs, trace = []\<rparr>"

text \<open>
  The replies of a fresh host through phases 5, 6 and 7 (directories created and the state
  uploaded; the image listed and verified as uid 7, the state uploaded; the two compose
  files uploaded, their owner set, the state uploaded), and scripts in which one step
  fails: the host refuses the connection; \<^verbatim>\<open>id -u\<close> reports a user that is not root; the
  installation of the packages, of Docker, the creation of the user, of the directories,
  the build of the image, the upload of the compose file fail; the marker of the
  onboarding is absent before and after the session.
\<close>

definition through5Replies :: "reply list" where
  "through5Replies = repliesToPhase4 @ [ok, ok]"

definition through6Replies :: "reply list" where
  "through6Replies =
     through5Replies @ [Reply 0 ''3f1c9a7d2b4e\<newline>'' [], Reply 0 ''7\<newline>'' [], ok]"

definition through7Replies :: "reply list" where
  "through7Replies = through6Replies @ [ok, ok, ok, ok]"

definition connectionFailure :: "reply list" where
  "connectionFailure = []"

definition privilegeFailure :: "reply list" where
  "privilegeFailure = [ok, Reply 0 ''1000\<newline>'' []]"

definition packageFailure :: "reply list" where
  "packageFailure = [ok, Reply 0 ''0\<newline>'' [], Reply 1 [] [], Reply 100 [] []]"

definition engineFailure :: "reply list" where
  "engineFailure = [ok, Reply 0 ''0\<newline>'' [], ok, Reply 1 [] [], Reply 1 [] []]"

definition principalFailure :: "reply list" where
  "principalFailure = [ok, Reply 0 ''0\<newline>'' [], ok, ok, Reply 1 [] [], Reply 1 [] []]"

definition directoryFailure :: "reply list" where
  "directoryFailure = repliesToPhase4 @ [Reply 1 [] []]"

definition imageFailure :: "reply list" where
  "imageFailure = through5Replies @ [Reply 0 [] [], Reply 1 [] [], ok, Reply 1 [] []]"

definition composeFailure :: "reply list" where
  "composeFailure = through6Replies @ [Rejects]"

definition serviceFailure :: "reply list" where
  "serviceFailure = through7Replies @ [Reply 1 [] [], ok, Reply 1 [] []]"

text \<open>A local machine on which the artifact cannot be written.\<close>

definition readOnlyLocal :: localMachine where
  "readOnlyLocal = sampleLocal\<lparr>artifactWritable := False\<rparr>"

text \<open>
  A host that holds the state a fresh run left behind after phase 4, with the replies of
  a run that resumes from it: the connection, \<^verbatim>\<open>id -u\<close>, and for phases 2 and 3 the check
  (already satisfied) and the upload of the state.
\<close>

definition resumedHost :: world where
  "resumedHost =
     hostWith (Some (encState sampleState)) [ok, Reply 0 ''0\<newline>'' [], ok, ok, ok, ok]"

text \<open>
  Readings of a reply: the command exited with status 0; \<^verbatim>\<open>docker images -q\<close> listed an
  image; the container started by \<^verbatim>\<open>verifyImage\<close> reported the uid \<open>u\<close>.
\<close>

fun exitsZero :: "reply \<Rightarrow> bool" where
  "exitsZero Rejects = False"
| "exitsZero (Reply code out err) = (code = 0)"

fun listsImage :: "reply \<Rightarrow> bool" where
  "listsImage Rejects = False"
| "listsImage (Reply code out err) = (code = 0 \<and> trim out \<noteq> [])"

fun reportsUid :: "nat \<Rightarrow> reply \<Rightarrow> bool" where
  "reportsUid u Rejects = False"
| "reportsUid u (Reply code out err) = (code = 0 \<and> parseInt (trim out) = Some (int u))"

definition VERIFY_CMD :: "string \<Rightarrow> nat \<Rightarrow> nat \<Rightarrow> string" where
  "VERIFY_CMD imageName u g =
     ''docker run --rm --user '' @ showNat u @ '':'' @ showNat g @ '' '' @ imageName @ '' id -u''"

definition sampleUser :: UserInfo where
  "sampleUser =
     \<lparr>username = ''roboclaw'', uid = 1000, gid = 1000, home = ''/home/roboclaw'',
      inDockerGroup = True\<rparr>"

definition IMAGE :: string where
  "IMAGE = ''roboclaw/openclaw:local''"

text \<open>
  A session in which a tagged image exists but runs as uid 0: the replies to the listing,
  the verification, \<^verbatim>\<open>docker rmi\<close>, the check of the repository, the update, the build,
  the second listing and the verification of the image built (\<open>verdict\<close>).
\<close>

definition staleImageSession :: "reply \<Rightarrow> world" where
  "staleImageSession verdict =
     sessionWith None
       [Reply 0 ''3f1c9a7d2b4e\<newline>'' [], Reply 0 ''0\<newline>'' [], ok, ok, ok, ok,
        Reply 0 ''8a6b5c4d3e2f\<newline>'' [], verdict]"

text \<open>
  The requests of a rebuild, in order: the check for a clone of the repository, the update
  of the clone or a fresh clone according to the reply \<open>repoCheck\<close> to that check, the
  build, the listing of the image and its verification.
\<close>

definition rebuildRequests :: "UserInfo \<Rightarrow> string \<Rightarrow> reply \<Rightarrow> event list" where
  "rebuildRequests userInfo br repoCheck =
     [Exec (''test -d '' @ home userInfo @ ''/openclaw-src/.git''),
      ExecStream
        (if exitsZero repoCheck
         then UPDATE_REPO_CMD (home userInfo @ ''/openclaw-src'') (username userInfo) br
         else CLONE_REPO_CMD (home userInfo @ ''/openclaw-src'') (username userInfo) br),
      ExecStream (BUILD_CMD (home userInfo @ ''/openclaw-src'') IMAGE),
      Exec (''docker images -q '' @ IMAGE),
      Exec (VERIFY_CMD IMAGE (uid userInfo) (gid userInfo))]"

text \<open>
  Observations on the pairing automation. \<open>pendingRequests\<close> is what one call of
  \<^verbatim>\<open>getPendingRequests\<close> returns; \<open>observed k w\<close> is what the poll number \<open>k\<close> (from 0)
  returns when polling starts in the world \<open>w\<close>; \<open>approvedIds\<close> lists, in order, the
  request ids of the approval calls in a trace.
\<close>

definition pendingRequests :: "UserInfo \<Rightarrow> world \<Rightarrow> PairingRequest list" where
  "pendingRequests userInfo w =
     (case fst (getPendingRequests userInfo w) of Inr requests \<Rightarrow> requests | Inl e \<Rightarrow> [])"

fun pollWorld :: "UserInfo \<Rightarrow> nat \<Rightarrow> world \<Rightarrow> world" where
  "pollWorld userInfo 0 w = w"
| "pollWorld userInfo (Suc k) w = pollWorld userInfo k (snd (getPendingRequests userInfo w))"

definition observed :: "UserInfo \<Rightarrow> nat \<Rightarrow> world \<Rightarrow> PairingRequest list" where
  "observed userInfo k w = pendingRequests userInfo (pollWorld userInfo k w)"

fun approvedIds :: "UserInfo \<Rightarrow> event list \<Rightarrow> string list" where
  "approvedIds userInfo [] = []"
| "approvedIds userInfo (Exec command # es) =
     (if startsWith command (DEVICES_CMD userInfo @ ''approve '')
      then drop (length (DEVICES_CMD userInfo @ ''approve '')) command # approvedIds userInfo es
      else approvedIds userInfo es)"
| "approvedIds userInfo (e # es) = approvedIds userInfo es"

text \<open>A table as \<^verbatim>\<open>devices list\<close> prints it, with the pending rows given.\<close>

definition tableRow :: "string list \<Rightarrow> string" where
  "tableRow cells = concat (map (\<lambda>cell. BOX @ '' '' @ cell @ '' '') cells) @ BOX"

definition devicesTable :: "string list list \<Rightarrow> string" where
  "devicesTable rows =
     ''Pending ('' @ showNat (length rows) @ '')\<newline>'' @
     tableRow [''Request'', ''Device'', ''Role'', ''IP'', ''Age'', ''Flags''] @ ''\<newline>'' @
     concat (map (\<lambda>row. tableRow row @ ''\<newline>'') rows) @
     ''Paired (0)\<newline>''"

definition knownRow :: "string list" where
  "knownRow = [''1b4e28ba-2fa1-11d2-883f-0016d3cca427'', ''dev-01'', ''operator'',
               ''198.51.100.7'', ''3m'']"

definition newRow :: "string list" where
  "newRow = [''9c5b94b1-35ad-49bb-b118-8e8fc24abf80'', ''dev-02'', ''operator'',
             ''198.51.100.9'', ''4s'']"

text \<open>A session where the poll after the snapshot shows a request that was not pending before.\<close>

definition pairingSession :: world where
  "pairingSession =
     sessionWith None
       [Reply 0 (devicesTable [knownRow]) [],
        Reply 0 (devicesTable [knownRow, newRow]) [],
        ok]"

text \<open>
  What a run leaves: its outcome, the phases it logged, and the statuses recorded in the
  state file on the host.
\<close>

definition report ::
  "runtime \<Rightarrow> outcome \<times> world \<Rightarrow>
   outcome \<times> (nat \<times> bool) list \<times> (nat \<times> PhaseStatus) list option" where
  "report rt r = (fst r, phaseLog (trace (snd r)), map_option phases (persisted rt (snd r)))"

text \<open>
  A plain action adds only requests to the trace, no line of the phase log, and does not
  exit the process.
\<close>

definition plain :: "'a io \<Rightarrow> bool" where
  "plain m =
     (\<forall>w. (\<exists>es. trace (snd (m w)) = trace w @ es \<and> (\<forall>e\<in>set es. \<not> isLog e)) \<and>
          (\<forall>n. fst (m w) \<noteq> Inl (ProcessExit n)))"

text \<open>\<open>exitsWithin S m\<close>: when \<open>m\<close> exits the process, the status is one of \<open>S\<close>.\<close>

definition exitsWithin :: "nat set \<Rightarrow> 'a io \<Rightarrow> bool" where
  "exitsWithin S m = (\<forall>w n. fst (m w) = Inl (ProcessExit n) \<longrightarrow> n \<in> S)"

text \<open>
  A list of events skips as \<open>existingState\<close> records when the phases it logs as skipped are
  those among 2 to 8 that \<open>existingState\<close> marks complete. \<open>tidy existingState w0 w\<close>: the
  trace of \<open>w\<close> extends that of \<open>w0\<close> by such a list; an action is orderly when it keeps
  a world tidy.
\<close>

definition skipsAsRecorded :: "DeploymentState option \<Rightarrow> event list \<Rightarrow> bool" where
  "skipsAsRecorded existingState es =
     (\<forall>(n, skipped)\<in>set (phaseLog es).
        skipped = (2 \<le> n \<and> n \<le> 8 \<and> \<not> needsRun existingState n))"

definition tidy :: "DeploymentState option \<Rightarrow> world \<Rightarrow> world \<Rightarrow> bool" where
  "tidy existingState w0 w =
     (\<exists>es. trace w = trace w0 @ es \<and> skipsAsRecorded existingState es)"

definition orderly :: "DeploymentState option \<Rightarrow> world \<Rightarrow> 'a io \<Rightarrow> bool" where
  "orderly existingState w0 m = (\<forall>w. tidy existingState w0 w \<longrightarrow> tidy existingState w0 (snd (m w)))"

text \<open>
  A new process started on the host that a run left behind, and the replies of a re-run
  after the failure of phase 5: the connection, \<^verbatim>\<open>id -u\<close>, for phases 2 and 3 the check and
  the upload of the state, for phase 5 the creation of the directories and the upload.
\<close>

definition hostAfter :: "world \<Rightarrow> reply list \<Rightarrow> world" where
  "hostAfter w rs = hostWith (stateFile w) rs"

definition rerunReplies :: "reply list" where
  "rerunReplies = [ok, Reply 0 ''0\<newline>'' [], ok, ok, ok, ok, ok, ok]"

text \<open>
  An action is requesting when it adds only requests to the trace (it may exit the
  process). \<open>loggedUpTo k w0 w\<close>: since \<open>w0\<close> the trace has logged the phases 1 to \<open>k\<close>, each
  once and in this order.
\<close>

definition requesting :: "'a io \<Rightarrow> bool" where
  "requesting m = (\<forall>w. \<exists>es. trace (snd (m w)) = trace w @ es \<and> (\<forall>e\<in>set es. \<not> isLog e))"

definition loggedUpTo :: "nat \<Rightarrow> world \<Rightarrow> world \<Rightarrow> bool" where
  "loggedUpTo k w0 w =
     (\<exists>es. trace w = trace w0 @ es \<and> map fst (phaseLog es) = [1..<Suc k])"

text \<open>
  The replies of a fresh host to a run that completes: after phase 7 the marker of the
  onboarding is present, the configuration is read (it holds no gateway token), the state
  is uploaded, and phase 10 removes the state file.
\<close>

definition completeReplies :: "reply list" where
  "completeReplies = through7Replies @ [ok, ok, ok, ok]"

section \<open>The sample runtime reads back what it writes\<close>

declare waitForListening.simps [simp del]
declare connectLoop.simps [simp del]
declare waitLoop.simps [simp del]
declare showNat.simps [simp del]

lemma decNat_encNat: "decNat (encNat n @ r) = Some (n, r)"
  by (induction n) auto

lemma decStr_encStr: "decStr (encStr s @ r) = Some (s, r)"
  by (simp add: decStr_def encStr_def decNat_encNat)

lemma decStr_encStr0: "decStr (encStr s) = Some (s, [])"
  using decStr_encStr [of s "[]"] by simp

lemma decStatus_encStatus: "decStatus (encStatus v # r) = Some (v, r)"
  by (cases v) (simp_all add: decStatus_def)

lemma decPhases_encPhases: "decPhases (encPhases ps @ r) = Some (ps, r)"
proof (induction ps)
  case Nil
  show ?case by simp
next
  case (Cons p ps)
  obtain k v where p: "p = (k, v)" by (cases p)
  show ?case
    using Cons.IH by (simp add: p decNat_encNat decStatus_encStatus)
qed

lemma decState_encState: "decState (encState s) = Some s"
  by (simp add: decState_def encState_def decStr_encStr decNat_encNat decPhases_encPhases
      decStr_encStr0)

lemma sampleRuntime_roundTrip: "roundTrip sampleRuntime"
  by (simp add: roundTrip_def sampleRuntime_def decState_encState)

section \<open>Sequencing, and actions that leave the state file alone\<close>
lemma andThen_Inr: "m w = (Inr x, w') \<Longrightarrow> andThen m f w = f x w'"
  by (simp add: andThen_def)

lemma andThen_Inl: "m w = (Inl e, w') \<Longrightarrow> andThen m f w = (Inl e, w')"
  by (simp add: andThen_def)

lemma andThen_returnsE:
  assumes "andThen m f w = (Inr y, w'')"
  obtains x w' where "m w = (Inr x, w')" and "f x w' = (Inr y, w'')"
  using assms by (auto simp: andThen_def split: prod.splits sum.splits)

lemma quietI:
  "(\<And>w. stateFile (snd (m w)) = stateFile w) \<Longrightarrow> (\<And>w. connected (snd (m w)) = connected w)
   \<Longrightarrow> quiet m"
  by (simp add: quiet_def)

lemma quietD:
  "quiet m \<Longrightarrow> m w = (r, w') \<Longrightarrow> stateFile w' = stateFile w \<and> connected w' = connected w"
  by (metis quiet_def snd_conv)

lemma quiet_ret [intro!, simp]: "quiet (ret x)"
  by (simp add: quiet_def ret_def)

lemma quiet_throw [intro!, simp]: "quiet (throw msg)"
  by (simp add: quiet_def throw_def)

lemma quiet_processExit [intro!, simp]: "quiet (processExit n)"
  by (simp add: quiet_def processExit_def)

lemma quiet_logEvent [intro!, simp]: "quiet (logEvent e)"
  by (simp add: quiet_def logEvent_def)

lemma quiet_andThen [intro!]:
  assumes "quiet m" and "\<And>x. quiet (f x)"
  shows "quiet (andThen m f)"
proof (rule quietI)
  fix w
  obtain r w1 where mw: "m w = (r, w1)" by (cases "m w")
  have k1: "stateFile w1 = stateFile w \<and> connected w1 = connected w"
    using quietD [OF assms(1) mw] .
  show "stateFile (snd (andThen m f w)) = stateFile w"
  proof (cases r)
    case (Inl e)
    with mw k1 show ?thesis by (simp add: andThen_def)
  next
    case (Inr x)
    obtain r2 w2 where fw: "f x w1 = (r2, w2)" by (cases "f x w1")
    from quietD [OF assms(2) fw] k1 mw Inr fw show ?thesis by (simp add: andThen_def)
  qed
  show "connected (snd (andThen m f w)) = connected w"
  proof (cases r)
    case (Inl e)
    with mw k1 show ?thesis by (simp add: andThen_def)
  next
    case (Inr x)
    obtain r2 w2 where fw: "f x w1 = (r2, w2)" by (cases "f x w1")
    from quietD [OF assms(2) fw] k1 mw Inr fw show ?thesis by (simp add: andThen_def)
  qed
qed

lemma quiet_tryCatch [intro!]:
  assumes "quiet m" and "\<And>e. quiet (h e)"
  shows "quiet (tryCatch m h)"
proof -
  have "stateFile (snd (tryCatch m h w)) = stateFile w \<and>
        connected (snd (tryCatch m h w)) = connected w" for w
  proof -
    obtain r w1 where mw: "m w = (r, w1)" by (cases "m w")
    have k1: "stateFile w1 = stateFile w \<and> connected w1 = connected w"
      using quietD [OF assms(1) mw] .
    show ?thesis
    proof (cases r)
      case (Inr x)
      with mw k1 show ?thesis by (simp add: tryCatch_def)
    next
      case (Inl e)
      show ?thesis
      proof (cases e)
        case (ProcessExit n)
        with Inl mw k1 show ?thesis by (simp add: tryCatch_def)
      next
        case (Error msg)
        obtain r2 w2 where hw: "h (Error msg) w1 = (r2, w2)" by (cases "h (Error msg) w1")
        from quietD [OF assms(2) hw] k1 mw Inl Error hw show ?thesis
          by (simp add: tryCatch_def)
      qed
    qed
  qed
  then show ?thesis by (simp add: quiet_def)
qed

lemma quiet_if [intro!]: "(b \<Longrightarrow> quiet m) \<Longrightarrow> (\<not> b \<Longrightarrow> quiet n) \<Longrightarrow> quiet (if b then m else n)"
  by simp

lemma nextReply_keeps [simp]:
  "stateFile (snd (nextReply w)) = stateFile w"
  "connected (snd (nextReply w)) = connected w"
  "trace (snd (nextReply w)) = trace w"
  by (simp_all add: nextReply_def split: list.splits)

lemma hostExec_keeps:
  "\<not> stateCommand command \<Longrightarrow> stateFile (snd (hostExec command w)) = stateFile w"
  unfolding hostExec_def stateCommand_def by simp

lemma hostExec_connected [simp]: "connected (snd (hostExec command w)) = connected w"
  unfolding hostExec_def by (simp split: option.splits)

lemma exec_world:
  "snd (exec command w) =
     (if connected w then snd (hostExec command (w\<lparr>trace := trace w @ [Exec command]\<rparr>)) else w)"
  unfolding exec_def by (simp split: prod.splits reply.splits)

lemma execStream_world:
  "snd (execStream command w) =
     (if connected w then snd (hostExec command (w\<lparr>trace := trace w @ [ExecStream command]\<rparr>))
      else w)"
  unfolding execStream_def by (simp split: prod.splits reply.splits)

lemma quiet_exec [intro]: "\<not> stateCommand command \<Longrightarrow> quiet (exec command)"
  by (simp add: quiet_def exec_world hostExec_keeps)

lemma quiet_execStream [intro]: "\<not> stateCommand command \<Longrightarrow> quiet (execStream command)"
  by (simp add: quiet_def execStream_world hostExec_keeps)

lemma uploadContent_world:
  "snd (uploadContent content remotePath w) =
     (if connected w then
        (case nextReply (w\<lparr>trace := trace w @ [UploadContent content remotePath]\<rparr>) of
           (Rejects, w') \<Rightarrow> w'
         | (Reply code out err, w') \<Rightarrow>
             if remotePath = STATE_FILE then w'\<lparr>stateFile := Some content\<rparr> else w')
      else w)"
  unfolding uploadContent_def by (simp split: prod.splits reply.splits)

lemma quiet_uploadContent [intro]:
  assumes "remotePath \<noteq> STATE_FILE"
  shows "quiet (uploadContent content remotePath)"
proof (rule quietI)
  fix w :: world
  let ?w1 = "w\<lparr>trace := trace w @ [UploadContent content remotePath]\<rparr>"
  obtain r w' where n: "nextReply ?w1 = (r, w')" by (cases "nextReply ?w1")
  have k: "stateFile w' = stateFile w" "connected w' = connected w"
    using nextReply_keeps(1) [of ?w1] nextReply_keeps(2) [of ?w1] n by simp_all
  show "stateFile (snd (uploadContent content remotePath w)) = stateFile w"
    using assms n k by (simp add: uploadContent_world split: reply.splits)
  show "connected (snd (uploadContent content remotePath w)) = connected w"
    using assms n k by (simp add: uploadContent_world split: reply.splits)
qed

lemma execInteractive_world:
  "snd (execInteractive command w) =
     (if connected w then snd (nextReply (w\<lparr>trace := trace w @ [ExecInteractive command]\<rparr>))
      else w)"
  unfolding execInteractive_def by (simp split: prod.splits reply.splits)

lemma quiet_execInteractive [intro!, simp]: "quiet (execInteractive command)"
  by (simp add: quiet_def execInteractive_world)


lemmas stateCommand_unfold = stateCommand_def STATE_FILE_def CLEAN_STATE_CMD_def

lemma cat_env_not_state: "\<not> stateCommand (''cat '' @ h @ ''/docker/.env'')"
proof
  assume "stateCommand (''cat '' @ h @ ''/docker/.env'')"
  then have "''cat '' @ h @ ''/docker/.env'' = ''cat '' @ STATE_FILE"
    by (simp add: stateCommand_unfold)
  then have "last (''cat '' @ h @ ''/docker/.env'') = last (''cat '' @ STATE_FILE)"
    by (rule arg_cong)
  then show False by (simp add: STATE_FILE_def)
qed

lemma cat_config_not_state: "\<not> stateCommand (''cat '' @ h @ ''/.openclaw/openclaw.json'')"
proof
  assume "stateCommand (''cat '' @ h @ ''/.openclaw/openclaw.json'')"
  then have "''cat '' @ h @ ''/.openclaw/openclaw.json'' = ''cat '' @ STATE_FILE"
    by (simp add: stateCommand_unfold)
  then have "rev (''cat '' @ h @ ''/.openclaw/openclaw.json'') ! 5 = rev (''cat '' @ STATE_FILE) ! 5"
    by (rule arg_cong)
  then show False by (simp add: STATE_FILE_def)
qed

lemma compose_path_not_state: "h @ ''/docker/docker-compose.yml'' \<noteq> STATE_FILE"
proof
  assume "h @ ''/docker/docker-compose.yml'' = STATE_FILE"
  then have "last (h @ ''/docker/docker-compose.yml'') = last STATE_FILE" by (rule arg_cong)
  then show False by (simp add: STATE_FILE_def)
qed

lemma env_path_not_state: "h @ ''/docker/.env'' \<noteq> STATE_FILE"
proof
  assume "h @ ''/docker/.env'' = STATE_FILE"
  then have "last (h @ ''/docker/.env'') = last STATE_FILE" by (rule arg_cong)
  then show False by (simp add: STATE_FILE_def)
qed

lemma quiet_installBasePackages: "quiet installBasePackages"
  unfolding installBasePackages_def
  by (intro quiet_andThen quiet_if quiet_exec quiet_execStream quiet_ret quiet_throw)
    (simp_all add: stateCommand_unfold BASE_PACKAGES_CMD_def)

lemma quiet_installDocker: "quiet installDocker"
  unfolding installDocker_def
  by (intro quiet_andThen quiet_if quiet_exec quiet_execStream quiet_ret quiet_throw)
    (simp_all add: stateCommand_unfold DOCKER_INSTALL_CMD_def)

lemma quiet_getUserInfo: "quiet (getUserInfo name)"
  unfolding getUserInfo_def Let_def
  by (intro quiet_andThen quiet_if quiet_exec)
    (auto simp: stateCommand_unfold split: option.splits)

lemma quiet_createDeploymentUser: "quiet createDeploymentUser"
  unfolding createDeploymentUser_def Let_def
  by (intro quiet_andThen quiet_if quiet_exec quiet_ret quiet_throw quiet_getUserInfo)
    (simp_all add: stateCommand_unfold)

lemma quiet_createDirectories: "quiet (createDirectories userInfo)"
  unfolding createDirectories_def
  by (intro quiet_andThen quiet_if quiet_exec quiet_ret quiet_throw)
    (simp_all add: stateCommand_unfold CREATE_DIRS_CMD_def)

lemma quiet_checkImageExists: "quiet (checkImageExists imageName)"
  unfolding checkImageExists_def
  by (intro quiet_andThen quiet_exec quiet_ret) (simp_all add: stateCommand_unfold)

lemma quiet_checkRepoExists: "quiet (checkRepoExists repoPath)"
  unfolding checkRepoExists_def
  by (intro quiet_andThen quiet_exec quiet_ret) (simp_all add: stateCommand_unfold)

lemma quiet_verifyImage: "quiet (verifyImage imageName u g)"
  unfolding verifyImage_def Let_def
  by (intro quiet_andThen quiet_if quiet_exec quiet_ret) (simp_all add: stateCommand_unfold)

lemma quiet_rebuildImage: "quiet (rebuildImage userInfo br imageName)"
  unfolding rebuildImage_def Let_def
  by (intro quiet_andThen quiet_if quiet_execStream quiet_ret quiet_throw
      quiet_checkImageExists quiet_checkRepoExists quiet_verifyImage)
    (simp_all add: stateCommand_unfold UPDATE_REPO_CMD_def CLONE_REPO_CMD_def BUILD_CMD_def)

lemma quiet_buildImage: "quiet (buildImage userInfo br)"
  unfolding buildImage_def Let_def
  by (intro quiet_andThen quiet_if quiet_exec quiet_ret quiet_throw
      quiet_checkImageExists quiet_verifyImage quiet_rebuildImage)
    (simp_all add: stateCommand_unfold)

lemma quiet_uploadComposeFiles: "quiet (uploadComposeFiles rt userInfo imageName)"
  unfolding uploadComposeFiles_def Let_def
  by (intro quiet_andThen quiet_if quiet_exec quiet_uploadContent quiet_ret quiet_throw)
    (simp_all add: stateCommand_unfold compose_path_not_state [unfolded STATE_FILE_def]
      env_path_not_state [unfolded STATE_FILE_def])

lemma quiet_checkOnboardingComplete: "quiet (checkOnboardingComplete h)"
  unfolding checkOnboardingComplete_def
  by (intro quiet_andThen quiet_exec quiet_ret) (simp_all add: stateCommand_unfold)

lemma quiet_runOnboarding: "quiet (runOnboarding userInfo skip)"
  unfolding runOnboarding_def Let_def
  by (intro quiet_andThen quiet_if quiet_tryCatch quiet_execInteractive quiet_ret quiet_throw
      quiet_checkOnboardingComplete)

lemma quiet_extractGatewayToken: "quiet (extractGatewayToken rt userInfo)"
  unfolding extractGatewayToken_def Let_def
  by (intro quiet_andThen quiet_if quiet_exec cat_config_not_state)
    (auto split: option.splits)

lemma quiet_updateEnvToken: "quiet (updateEnvToken userInfo token)"
  unfolding updateEnvToken_def Let_def
  by (intro quiet_andThen quiet_if quiet_exec quiet_uploadContent quiet_ret quiet_throw
      cat_env_not_state env_path_not_state)
    (simp_all add: stateCommand_unfold)

lemma establishesI:
  "(\<And>w x w'. P w \<Longrightarrow> m w = (Inr x, w') \<Longrightarrow> Q x w') \<Longrightarrow> establishes P m Q"
  by (simp add: establishes_def)

lemma establishesD: "establishes P m Q \<Longrightarrow> P w \<Longrightarrow> m w = (Inr x, w') \<Longrightarrow> Q x w'"
  by (simp add: establishes_def)

lemma establishes_andThen:
  assumes "establishes P m Q" and "\<And>x. establishes (Q x) (f x) R"
  shows "establishes P (andThen m f) R"
proof (rule establishesI)
  fix w y w''
  assume P: "P w" and r: "andThen m f w = (Inr y, w'')"
  from r obtain x w' where 1: "m w = (Inr x, w')" and 2: "f x w' = (Inr y, w'')"
    by (rule andThen_returnsE)
  from establishesD [OF assms(1) P 1] have "Q x w'" .
  from establishesD [OF assms(2) this 2] show "R y w''" .
qed

lemma establishes_weaken:
  "establishes P m Q \<Longrightarrow> (\<And>w. P' w \<Longrightarrow> P w) \<Longrightarrow> (\<And>x w. Q x w \<Longrightarrow> Q' x w)
   \<Longrightarrow> establishes P' m Q'"
  unfolding establishes_def by (intro allI impI) (elim allE impE, assumption+)

lemma establishes_ret: "(\<And>w. P w \<Longrightarrow> Q x w) \<Longrightarrow> establishes P (ret x) Q"
  by (simp add: establishes_def ret_def)

lemma establishes_throw: "establishes P (throw msg) Q"
  by (simp add: establishes_def throw_def)

lemma establishes_if:
  "(b \<Longrightarrow> establishes P m Q) \<Longrightarrow> (\<not> b \<Longrightarrow> establishes P n Q)
   \<Longrightarrow> establishes P (if b then m else n) Q"
  by (cases b) simp_all

lemma persisted_cong: "stateFile w' = stateFile w \<Longrightarrow> persisted rt w' = persisted rt w"
  by (simp add: persisted_def)

lemma recorded_cong: "stateFile w' = stateFile w \<Longrightarrow> recorded rt w' n = recorded rt w n"
  by (simp add: recorded_def persisted_def)

lemma inv_cong:
  "stateFile w' = stateFile w \<Longrightarrow> connected w' = connected w \<Longrightarrow> stateInv rt R w' = stateInv rt R w"
  by (simp add: stateInv_def recorded_def persisted_def)

lemma quiet_inv:
  assumes "quiet m"
  shows "establishes (stateInv rt R) m (\<lambda>x. stateInv rt R)"
proof (rule establishesI)
  fix w x w'
  assume i: "stateInv rt R w" and r: "m w = (Inr x, w')"
  from quietD [OF assms r] have "stateFile w' = stateFile w" "connected w' = connected w"
    by simp_all
  from inv_cong [OF this] i show "stateInv rt R w'" by simp
qed

lemma quiet_connected:
  assumes "quiet m"
  shows "establishes connected m (\<lambda>x. connected)"
proof (rule establishesI)
  fix w x w'
  assume i: "connected w" and r: "m w = (Inr x, w')"
  from quietD [OF assms r] i show "connected w'" by simp
qed

lemma waitForListening_keeps:
  "\<not> stateCommand logsCmd \<Longrightarrow>
   stateFile (snd (waitForListening logsCmd waited w)) = stateFile w \<and>
   connected (snd (waitForListening logsCmd waited w)) = connected w"
proof (induction logsCmd waited w rule: waitForListening.induct)
  case (1 logsCmd waited w)
  show ?case
  proof (cases "waited < 30")
    case False
    then show ?thesis by (simp add: waitForListening.simps [of logsCmd waited w])
  next
    case True
    obtain r w1 where e: "exec logsCmd w = (r, w1)" by (cases "exec logsCmd w")
    have k: "stateFile w1 = stateFile w \<and> connected w1 = connected w"
      using quietD [OF quiet_exec [OF "1.prems"] e] .
    show ?thesis
    proof (cases r)
      case (Inl err)
      with True e k show ?thesis by (simp add: waitForListening.simps [of logsCmd waited w])
    next
      case (Inr res)
      show ?thesis
      proof (cases "exitCode res = 0")
        case True
        with \<open>waited < 30\<close> Inr e k show ?thesis
          by (simp add: waitForListening.simps [of logsCmd waited w])
      next
        case False
        from "1.IH" [OF \<open>waited < 30\<close> e [symmetric] Inr False "1.prems"] k
        show ?thesis
          using \<open>waited < 30\<close> Inr e False
          by (simp add: waitForListening.simps [of logsCmd waited w])
      qed
    qed
  qed
qed

lemma quiet_waitForListening: "\<not> stateCommand logsCmd \<Longrightarrow> quiet (waitForListening logsCmd waited)"
  by (simp add: quiet_def waitForListening_keeps)

lemma quiet_startGateway: "quiet (startGateway userInfo)"
  unfolding startGateway_def Let_def
  by (intro quiet_andThen quiet_if quiet_execStream quiet_throw quiet_waitForListening)
    (simp_all add: stateCommand_unfold)

lemma loadState_connected:
  "connected w \<Longrightarrow>
   loadState rt w = (Inr (persisted rt w), w\<lparr>trace := trace w @ [Exec (''cat '' @ STATE_FILE)]\<rparr>)"
  unfolding loadState_def tryCatch_def andThen_def exec_def hostExec_def persisted_def
    parseState_def ret_def throw_def
  by (simp split: option.splits)

lemma loadState_disconnected: "\<not> connected w \<Longrightarrow> loadState rt w = (Inr None, w)"
  unfolding loadState_def tryCatch_def andThen_def exec_def ret_def by simp

lemma uploadContent_state:
  assumes "uploadContent content STATE_FILE w = (Inr u, w')"
  shows "stateFile w' = Some content \<and> connected w'"
proof -
  from assms have c: "connected w"
    by (auto simp: uploadContent_def split: if_splits)
  let ?w1 = "w\<lparr>trace := trace w @ [UploadContent content STATE_FILE]\<rparr>"
  obtain r w2 where n: "nextReply ?w1 = (r, w2)" by (cases "nextReply ?w1")
  have "connected w2 = connected ?w1" using nextReply_keeps(2) [of ?w1] n by simp
  with c have c2: "connected w2" by simp
  from assms c n c2 show ?thesis
    by (auto simp: uploadContent_def split: reply.splits)
qed

lemma updateState_effect:
  assumes "connected w" and "updateState rt n s w = (Inr u, w')"
  shows "connected w' \<and>
         (case persisted rt w of
            None \<Rightarrow> stateFile w' = stateFile w
          | Some state \<Rightarrow>
              stateFile w' =
                Some (JSON_stringify rt
                  (state\<lparr>phases := AList.update n s (phases state), lastPhase := n\<rparr>)))"
proof (cases "persisted rt w")
  case None
  with assms show ?thesis
    by (auto simp: updateState_def andThen_def loadState_connected ret_def)
next
  case (Some state)
  let ?w1 = "w\<lparr>trace := trace w @ [Exec (''cat '' @ STATE_FILE)]\<rparr>"
  from assms Some have
    "uploadContent (JSON_stringify rt
        (state\<lparr>phases := AList.update n s (phases state), lastPhase := n\<rparr>)) STATE_FILE ?w1
     = (Inr u, w')"
    by (simp add: updateState_def andThen_def loadState_connected Let_def)
  from uploadContent_state [OF this] Some show ?thesis by simp
qed

lemma isPhaseComplete_update:
  "isPhaseComplete (state\<lparr>phases := AList.update n complete (phases state), lastPhase := n\<rparr>) m
   = (m = n \<or> isPhaseComplete state m)"
  by (simp add: isPhaseComplete_def update_conv')

lemma updateState_inv:
  assumes "roundTrip rt"
  shows "establishes (stateInv rt R) (updateState rt k complete) (\<lambda>u. stateInv rt (insert k R))"
proof (rule establishesI)
  fix w u w'
  assume i: "stateInv rt R w" and r: "updateState rt k complete w = (Inr u, w')"
  from i obtain state where p: "persisted rt w = Some state" and c: "connected w"
    and rec: "\<forall>n\<in>R. isPhaseComplete state n"
    by (auto simp: stateInv_def recorded_def)
  from updateState_effect [OF c r] p have c': "connected w'"
    and f: "stateFile w' = Some (JSON_stringify rt
              (state\<lparr>phases := AList.update k complete (phases state), lastPhase := k\<rparr>))"
    by simp_all
  from f assms have "persisted rt w' =
      Some (state\<lparr>phases := AList.update k complete (phases state), lastPhase := k\<rparr>)"
    by (simp add: persisted_def roundTrip_def)
  with c' rec show "stateInv rt (insert k R) w'"
    by (simp add: stateInv_def recorded_def isPhaseComplete_update)
qed

lemma inv_mono: "stateInv rt R w \<Longrightarrow> R' \<subseteq> R \<Longrightarrow> stateInv rt R' w"
  by (auto simp: stateInv_def)

lemma quiet_skipPhase: "quiet (skipPhase n)"
  unfolding skipPhase_def by (intro quiet_andThen quiet_logEvent)

lemma skip_inv:
  assumes "quiet m" and "k \<in> R"
  shows "establishes (stateInv rt R) m (\<lambda>x. stateInv rt (insert k R))"
proof -
  from assms(2) have "insert k R = R" by auto
  with quiet_inv [OF assms(1)] show ?thesis by simp
qed

lemma phase5_inv:
  assumes "roundTrip rt" and "\<not> needsRun existingState 5 \<Longrightarrow> 5 \<in> R"
  shows "establishes (stateInv rt R) (phase5 rt existingState u) (\<lambda>x. stateInv rt (insert 5 R))"
  unfolding phase5_def
  apply (rule establishes_if)
   apply (rule establishes_andThen [OF quiet_inv [OF quiet_logEvent]])
   apply (rule establishes_andThen [OF quiet_inv [OF quiet_createDirectories]])
   apply (rule updateState_inv [OF assms(1)])
  apply (rule skip_inv [OF quiet_skipPhase])
  apply (erule assms(2))
  done

lemma phase6_inv:
  assumes "roundTrip rt" and "\<not> needsRun existingState 6 \<Longrightarrow> 6 \<in> R"
  shows "establishes (stateInv rt R) (phase6 rt config existingState u) (\<lambda>x. stateInv rt (insert 6 R))"
  unfolding phase6_def
  apply (rule establishes_if)
   apply (rule establishes_andThen [OF quiet_inv [OF quiet_logEvent]])
   apply (rule establishes_andThen [OF quiet_inv [OF quiet_buildImage]])
   apply (rule establishes_andThen [OF updateState_inv [OF assms(1)]])
   apply (rule quiet_inv [OF quiet_ret])
  apply (rule skip_inv)
   apply (intro quiet_andThen quiet_skipPhase quiet_ret)
  apply (erule assms(2))
  done

lemma phase7_inv:
  assumes "roundTrip rt" and "\<not> needsRun existingState 7 \<Longrightarrow> 7 \<in> R"
  shows "establishes (stateInv rt R) (phase7 rt existingState u imageName) (\<lambda>x. stateInv rt (insert 7 R))"
  unfolding phase7_def
  apply (rule establishes_if)
   apply (rule establishes_andThen [OF quiet_inv [OF quiet_logEvent]])
   apply (rule establishes_andThen [OF quiet_inv [OF quiet_uploadComposeFiles]])
   apply (rule updateState_inv [OF assms(1)])
  apply (rule skip_inv [OF quiet_skipPhase])
  apply (erule assms(2))
  done

lemma quiet_gatewayRestart:
  "quiet (case gatewayToken of
            Some token \<Rightarrow>
              andThen
                (exec (''cd '' @ home u @ ''/docker && sudo -u '' @ username u @
                       '' docker compose stop openclaw-gateway 2>/dev/null || true''))
                (\<lambda>r. andThen (updateEnvToken u token) (\<lambda>u''. startGateway u))
          | None \<Rightarrow> ret ())"
proof (cases gatewayToken)
  case None
  then show ?thesis by simp
next
  case (Some token)
  have "\<not> stateCommand (''cd '' @ home u @ ''/docker && sudo -u '' @ username u @
                       '' docker compose stop openclaw-gateway 2>/dev/null || true'')"
    by (simp add: stateCommand_unfold)
  then show ?thesis
    unfolding Some option.case
    by (intro quiet_andThen quiet_exec quiet_updateEnvToken quiet_startGateway)
qed

lemma phase8_inv:
  assumes "roundTrip rt" and "\<not> needsRun existingState 8 \<Longrightarrow> 8 \<in> R"
  shows "establishes (stateInv rt R) (phase8 rt config existingState u) (\<lambda>x. stateInv rt (insert 8 R))"
  unfolding phase8_def
  apply (rule establishes_if)
   apply (rule establishes_andThen [OF quiet_inv [OF quiet_logEvent]])
   apply (rule establishes_andThen [OF quiet_inv [OF quiet_runOnboarding]])
   apply (rule establishes_andThen [OF quiet_inv [OF quiet_extractGatewayToken]])
   apply (rule establishes_andThen [OF quiet_inv [OF quiet_gatewayRestart]])
   apply (rule establishes_andThen [OF updateState_inv [OF assms(1)]])
   apply (rule quiet_inv [OF quiet_ret])
  apply (rule skip_inv)
   apply (intro quiet_andThen quiet_skipPhase quiet_extractGatewayToken)
  apply (erule assms(2))
  done

lemma phase2_resumed:
  assumes "roundTrip rt" and "\<not> needsRun (Some s0) 2 \<Longrightarrow> 2 \<in> R"
  shows "establishes (stateInv rt R) (phase2 rt (Some s0)) (\<lambda>x. stateInv rt (insert 2 R))"
  unfolding phase2_def
  apply (rule establishes_if)
   apply (rule establishes_andThen [OF quiet_inv [OF quiet_logEvent]])
   apply (rule establishes_andThen [OF quiet_inv [OF quiet_installBasePackages]])
   apply (simp add: updateState_inv [OF assms(1)])
  apply (rule skip_inv [OF quiet_skipPhase])
  apply (erule assms(2))
  done

lemma phase3_resumed:
  assumes "roundTrip rt" and "\<not> needsRun (Some s0) 3 \<Longrightarrow> 3 \<in> R"
  shows "establishes (stateInv rt R) (phase3 rt (Some s0)) (\<lambda>x. stateInv rt (insert 3 R))"
  unfolding phase3_def
  apply (rule establishes_if)
   apply (rule establishes_andThen [OF quiet_inv [OF quiet_logEvent]])
   apply (rule establishes_andThen [OF quiet_inv [OF quiet_installDocker]])
   apply (simp add: updateState_inv [OF assms(1)])
  apply (rule skip_inv [OF quiet_skipPhase])
  apply (erule assms(2))
  done

lemma quiet_phase2_fresh: "quiet (phase2 rt None)"
  unfolding phase2_def
  by (simp, intro quiet_andThen quiet_logEvent quiet_installBasePackages quiet_ret)

lemma quiet_phase3_fresh: "quiet (phase3 rt None)"
  unfolding phase3_def
  by (simp, intro quiet_andThen quiet_logEvent quiet_installDocker quiet_ret)

lemma createState_inv:
  assumes "roundTrip rt"
  shows "establishes connected (createState rt name meta) (\<lambda>u. stateInv rt {})"
proof (rule establishesI)
  fix w u w'
  assume "connected w" and r: "createState rt name meta w = (Inr u, w')"
  from r obtain state where "uploadContent (JSON_stringify rt state) STATE_FILE w = (Inr u, w')"
    by (simp add: createState_def Let_def)
  from uploadContent_state [OF this] assms show "stateInv rt {} w'"
    by (simp add: stateInv_def persisted_def roundTrip_def)
qed

lemma phase4_fresh:
  assumes "roundTrip rt"
  shows "establishes connected (phase4 rt config None) (\<lambda>x. stateInv rt {4})"
  unfolding phase4_def
  apply simp
  apply (rule establishes_andThen [OF quiet_connected [OF quiet_logEvent]])
  apply (rule establishes_andThen [OF quiet_connected [OF quiet_createDeploymentUser]])
  apply (rule establishes_andThen [OF createState_inv [OF assms]])
  apply (rule establishes_andThen [OF updateState_inv [OF assms]])
  apply (rule quiet_inv [OF quiet_ret])
  done

lemma phase4_resumed:
  assumes "roundTrip rt" and "\<not> needsRun (Some s0) 4 \<Longrightarrow> 4 \<in> R"
  shows "establishes (stateInv rt R) (phase4 rt config (Some s0)) (\<lambda>x. stateInv rt (insert 4 R))"
  unfolding phase4_def
  apply (rule establishes_if)
   apply (rule establishes_andThen [OF quiet_inv [OF quiet_logEvent]])
   apply (rule establishes_andThen [OF quiet_inv [OF quiet_createDeploymentUser]])
   apply simp
   apply (rule establishes_andThen [OF quiet_inv [OF quiet_ret]])
   apply (rule establishes_andThen [OF updateState_inv [OF assms(1)]])
   apply (rule quiet_inv [OF quiet_ret])
  apply (rule skip_inv)
   apply (intro quiet_andThen quiet_skipPhase quiet_ret)
  apply (erule assms(2))
  done

lemma establishes_any: "establishes P m (\<lambda>x w. True)"
  by (simp add: establishes_def)

lemma establishes_processExit: "establishes P (processExit n) Q"
  by (simp add: establishes_def processExit_def)

lemma connectLoop_connected:
  "connectLoop attempt w = (Inr u, w') \<Longrightarrow> attempt \<le> 3 \<Longrightarrow> connected w'"
proof (induction attempt w rule: connectLoop.induct)
  case (1 attempt w)
  let ?w1 = "w\<lparr>trace := trace w @ [ConnectAttempt attempt]\<rparr>"
  obtain r w2 where n: "nextReply ?w1 = (r, w2)" by (cases "nextReply ?w1")
  show ?case
  proof (cases r)
    case Rejects
    show ?thesis
    proof (cases "attempt = 3")
      case True
      with "1.prems" n Rejects show ?thesis
        unfolding connectLoop.simps [of attempt w] by simp
    next
      case False
      with "1.prems" n Rejects have "connectLoop (attempt + 1) w2 = (Inr u, w')"
        unfolding connectLoop.simps [of attempt w] by simp
      from "1.IH" [OF "1.prems"(2) n [symmetric] Rejects False this] "1.prems"(2) False
      show ?thesis by simp
    qed
  next
    case (Reply code out err)
    with "1.prems" n have "w' = w2\<lparr>connected := True\<rparr>"
      unfolding connectLoop.simps [of attempt w] by simp
    then show ?thesis by simp
  qed
qed

lemma connect_connected: "establishes (\<lambda>w. True) connect (\<lambda>u. connected)"
proof (rule establishesI)
  fix w u w'
  assume "connect w = (Inr u, w')"
  then show "connected w'"
    using connectLoop_connected [of 1 w u w']
    by (auto simp: connect_def split: if_splits)
qed

lemma exec_connected: "establishes connected (exec command) (\<lambda>r. connected)"
proof (rule establishesI)
  fix w x w'
  assume c: "connected w" and r: "exec command w = (Inr x, w')"
  from r have "w' = snd (exec command w)" by simp
  with c show "connected w'" by (simp add: exec_world)
qed

lemma cleanDeployment_connected: "establishes connected cleanDeployment (\<lambda>r. connected)"
  unfolding cleanDeployment_def
  by (intro establishes_andThen [OF exec_connected] establishes_ret)

lemma quiet_verifyRootAccess: "quiet verifyRootAccess"
  unfolding verifyRootAccess_def
  by (intro quiet_andThen quiet_exec quiet_ret) (simp_all add: stateCommand_unfold)

lemma resumeCheck_inv:
  "establishes connected (resumeCheck rt config)
     (\<lambda>existingState w.
        connected w \<and> (existingState \<noteq> None \<longrightarrow> stateInv rt {n. \<not> needsRun existingState n} w))"
proof (rule establishesI)
  fix w ex w'
  assume c: "connected w" and r: "resumeCheck rt config w = (Inr ex, w')"
  let ?w1 = "w\<lparr>trace := trace w @ [Exec (''cat '' @ STATE_FILE)]\<rparr>"
  have p1: "persisted rt ?w1 = persisted rt w" by (simp add: persisted_def)
  define d where "d =
    (case persisted rt w of
       None \<Rightarrow> None
     | Some state \<Rightarrow>
         if list_ex (\<lambda>status. status = failed) (map snd (phases state)) \<or>
            list_ex (\<lambda>status. status = pending) (map snd (phases state))
         then Some state else None)"
  have d: "detectPartialDeployment rt w = (Inr d, ?w1)"
    using c unfolding d_def
    by (simp add: detectPartialDeployment_def andThen_def loadState_connected ret_def Let_def
        split: option.splits)
  have dp: "d = None \<or> d = persisted rt w"
    unfolding d_def by (simp split: option.splits)
  show "connected w' \<and> (ex \<noteq> None \<longrightarrow> stateInv rt {n. \<not> needsRun ex n} w')"
  proof (cases "d \<noteq> None \<and> force config")
    case True
    with r d have "andThen deleteState (\<lambda>u. ret None) ?w1 = (Inr ex, w')"
      by (simp add: resumeCheck_def andThen_def)
    then obtain u w2 where del: "deleteState ?w1 = (Inr u, w2)" and e: "ret None w2 = (Inr ex, w')"
      by (rule andThen_returnsE)
    from del obtain res where "exec (''rm -f '' @ STATE_FILE) ?w1 = (Inr res, w2)"
      by (auto simp: deleteState_def ret_def elim: andThen_returnsE)
    from establishesD [OF exec_connected _ this] c have "connected w2" by simp
    with e show ?thesis by (simp add: ret_def)
  next
    case False
    with r d have e: "ex = d" "w' = ?w1"
      by (auto simp: resumeCheck_def andThen_def ret_def)
    show ?thesis
    proof (cases ex)
      case None
      with e c show ?thesis by simp
    next
      case (Some s0)
      from e Some have "d = Some s0" by simp
      with dp have pw: "persisted rt w = Some s0" by auto
      from p1 e pw have pw': "persisted rt w' = Some s0" by simp
      from e c have cw': "connected w'" by simp
      show ?thesis
        unfolding Some by (simp add: stateInv_def recorded_def pw' cw')
    qed
  qed
qed

lemma prelude_inv:
  "establishes (\<lambda>w. True) (prelude rt lm flagsIp)
     (\<lambda>r w. connected w \<and> (snd r \<noteq> None \<longrightarrow> stateInv rt {n. \<not> needsRun (snd r) n} w))"
  unfolding prelude_def
  apply (rule establishes_if)
   apply (rule establishes_processExit)
  apply (rule establishes_andThen [OF establishes_any])
  apply (rule establishes_andThen [OF establishes_any])
  apply (rule establishes_andThen [OF establishes_any])
  apply (rule establishes_andThen [OF establishes_any])
  apply (rule establishes_andThen [OF connect_connected])
  apply (rule establishes_andThen [OF quiet_connected [OF quiet_verifyRootAccess]])
  apply (rule establishes_if)
   apply (rule establishes_processExit)
  apply (rule establishes_andThen [where Q = "\<lambda>x. connected"])
   apply (rule establishes_if)
    apply (rule cleanDeployment_connected)
   apply (rule quiet_connected [OF quiet_ret])
  apply (rule establishes_andThen [OF resumeCheck_inv])
  apply (rule establishes_ret)
  apply simp
  done

lemma inv_connected: "stateInv rt R w \<Longrightarrow> connected w"
  by (simp add: stateInv_def)

lemma prelude_standing:
  assumes "prelude rt lm flagsIp w = (Inr (config, ex), w')"
  shows "ex = existingStateOf rt lm flagsIp w \<and> standing rt ex 1 w'"
proof -
  from establishesD [OF prelude_inv TrueI assms] have
    "connected w' \<and> (ex \<noteq> None \<longrightarrow> stateInv rt {n. \<not> needsRun ex n} w')" by simp
  with assms show ?thesis by (simp add: existingStateOf_def standing_def)
qed

lemma through2_standing:
  assumes rt: "roundTrip rt" and r: "through2 rt lm flagsIp w = (Inr (config, ex), w')"
  shows "ex = existingStateOf rt lm flagsIp w \<and> standing rt ex 2 w'"
proof -
  from r obtain r0 w1 where a: "prelude rt lm flagsIp w = (Inr r0, w1)"
    and b: "(case r0 of (config, existingState) \<Rightarrow>
               andThen (phase2 rt existingState) (\<lambda>u. ret (config, existingState))) w1
            = (Inr (config, ex), w')"
    unfolding through2_def by (rule andThen_returnsE)
  obtain config0 ex0 where r0: "r0 = (config0, ex0)" by (cases r0)
  from b r0 obtain u where ph: "phase2 rt ex0 w1 = (Inr u, w')" and e: "ex0 = ex" "config0 = config"
    by (auto simp: ret_def elim!: andThen_returnsE)
  note a' = a [unfolded r0 e]
  from prelude_standing [OF a']
  have E: "ex = existingStateOf rt lm flagsIp w" and s: "standing rt ex 1 w1" by blast+
  have "standing rt ex 2 w'"
  proof (cases ex)
    case None
    from s have "connected w1" by (simp add: standing_def)
    from establishesD [OF quiet_connected [OF quiet_phase2_fresh] this ph [unfolded e None]]
    show ?thesis by (simp add: standing_def None)
  next
    case (Some s0)
    let ?R = "{n. \<not> needsRun ex n}"
    from s Some have i: "stateInv rt ?R w1" by (simp add: standing_def)
    have "establishes (stateInv rt ?R) (phase2 rt (Some s0)) (\<lambda>x. stateInv rt (insert 2 ?R))"
      by (rule phase2_resumed [OF rt]) (simp add: Some)
    from establishesD [OF this i ph [unfolded e Some]] have i': "stateInv rt (insert 2 ?R) w'" .
    have "insert 2 ?R = ?R \<union> {2..2}" by auto
    with i' show ?thesis by (simp add: standing_def Some inv_connected)
  qed
  with E show ?thesis by simp
qed

lemma through3_standing:
  assumes rt: "roundTrip rt" and r: "through3 rt lm flagsIp w = (Inr (config, ex), w')"
  shows "ex = existingStateOf rt lm flagsIp w \<and> standing rt ex 3 w'"
proof -
  from r obtain r0 w1 where a: "through2 rt lm flagsIp w = (Inr r0, w1)"
    and b: "(case r0 of (config, existingState) \<Rightarrow>
               andThen (phase3 rt existingState) (\<lambda>u. ret (config, existingState))) w1
            = (Inr (config, ex), w')"
    unfolding through3_def by (rule andThen_returnsE)
  obtain config0 ex0 where r0: "r0 = (config0, ex0)" by (cases r0)
  from b r0 obtain u where ph: "phase3 rt ex0 w1 = (Inr u, w')" and e: "ex0 = ex" "config0 = config"
    by (auto simp: ret_def elim!: andThen_returnsE)
  note a' = a [unfolded r0 e]
  from through2_standing [OF rt a']
  have E: "ex = existingStateOf rt lm flagsIp w" and s: "standing rt ex 2 w1" by blast+
  have "standing rt ex 3 w'"
  proof (cases ex)
    case None
    from s have "connected w1" by (simp add: standing_def)
    from establishesD [OF quiet_connected [OF quiet_phase3_fresh] this ph [unfolded e None]]
    show ?thesis by (simp add: standing_def None)
  next
    case (Some s0)
    let ?R = "{n. \<not> needsRun ex n} \<union> {2..2}"
    from s Some have i: "stateInv rt ?R w1" by (simp add: standing_def)
    have "establishes (stateInv rt ?R) (phase3 rt (Some s0)) (\<lambda>x. stateInv rt (insert 3 ?R))"
      by (rule phase3_resumed [OF rt]) (simp add: Some)
    from establishesD [OF this i ph [unfolded e Some]] have i': "stateInv rt (insert 3 ?R) w'" .
    have "insert 3 ?R = {n. \<not> needsRun ex n} \<union> {2..3}" by auto
    with i' show ?thesis by (simp add: standing_def Some inv_connected)
  qed
  with E show ?thesis by simp
qed

lemma through4_standing:
  assumes rt: "roundTrip rt" and r: "through4 rt lm flagsIp w = (Inr (config, ex, du), w')"
  shows "ex = existingStateOf rt lm flagsIp w \<and> standing rt ex 4 w'"
proof -
  from r obtain r0 w1 where a: "through3 rt lm flagsIp w = (Inr r0, w1)"
    and b: "(case r0 of (config, existingState) \<Rightarrow>
               andThen (phase4 rt config existingState) (\<lambda>deployUser'.
                 ret (config, existingState, deployUser'))) w1
            = (Inr (config, ex, du), w')"
    unfolding through4_def by (rule andThen_returnsE)
  obtain config0 ex0 where r0: "r0 = (config0, ex0)" by (cases r0)
  from b r0 obtain u where ph: "phase4 rt config0 ex0 w1 = (Inr u, w')"
    and e: "ex0 = ex" "config0 = config"
    by (auto simp: ret_def elim!: andThen_returnsE)
  note a' = a [unfolded r0 e]
  from through3_standing [OF rt a']
  have E: "ex = existingStateOf rt lm flagsIp w" and s: "standing rt ex 3 w1" by blast+
  have "standing rt ex 4 w'"
  proof (cases ex)
    case None
    from s have "connected w1" by (simp add: standing_def)
    from establishesD [OF phase4_fresh [OF rt] this ph [unfolded e None]]
    have "stateInv rt {4} w'" .
    then show ?thesis by (simp add: standing_def None inv_connected)
  next
    case (Some s0)
    let ?R = "{n. \<not> needsRun ex n} \<union> {2..3}"
    from s Some have i: "stateInv rt ?R w1" by (simp add: standing_def)
    have "establishes (stateInv rt ?R) (phase4 rt config (Some s0)) (\<lambda>x. stateInv rt (insert 4 ?R))"
      by (rule phase4_resumed [OF rt]) (simp add: Some)
    from establishesD [OF this i ph [unfolded e Some]] have i': "stateInv rt (insert 4 ?R) w'" .
    have "insert 4 ?R = {n. \<not> needsRun ex n} \<union> {2..4}" by auto
    with i' show ?thesis by (simp add: standing_def Some inv_connected)
  qed
  with E show ?thesis by simp
qed

lemma standing_step:
  assumes k: "5 \<le> k" and s: "standing rt ex (k - 1) w1"
    and ph: "\<And>R. (\<not> needsRun ex k \<Longrightarrow> k \<in> R)
               \<Longrightarrow> establishes (stateInv rt R) m (\<lambda>x. stateInv rt (insert k R))"
    and r: "m w1 = (Inr x, w')"
  shows "standing rt ex k w'"
proof (cases ex)
  case None
  from s k None have i: "stateInv rt {4..k - 1} w1" by (simp add: standing_def)
  have "establishes (stateInv rt {4..k - 1}) m (\<lambda>x. stateInv rt (insert k {4..k - 1}))"
    by (rule ph) (simp add: None)
  from establishesD [OF this i r] have i': "stateInv rt (insert k {4..k - 1}) w'" .
  from k have "insert k {4..k - 1} = {4..k}" by auto
  with i' show ?thesis by (simp add: standing_def None inv_connected)
next
  case (Some s0)
  let ?R = "{n. \<not> needsRun ex n} \<union> {2..k - 1}"
  from s Some have i: "stateInv rt ?R w1" by (simp add: standing_def)
  have "establishes (stateInv rt ?R) m (\<lambda>x. stateInv rt (insert k ?R))"
    by (rule ph) simp
  from establishesD [OF this i r] have i': "stateInv rt (insert k ?R) w'" .
  from k have "insert k ?R = {n. \<not> needsRun ex n} \<union> {2..k}" by auto
  with i' show ?thesis by (simp add: standing_def Some inv_connected)
qed

lemma through5_standing:
  assumes rt: "roundTrip rt" and r: "through5 rt lm flagsIp w = (Inr (config, ex, du), w')"
  shows "ex = existingStateOf rt lm flagsIp w \<and> standing rt ex 5 w'"
proof -
  from r obtain r0 w1 where a: "through4 rt lm flagsIp w = (Inr r0, w1)"
    and b: "(case r0 of (config, existingState, deployUser') \<Rightarrow>
               andThen (phase5 rt existingState deployUser') (\<lambda>u.
                 ret (config, existingState, deployUser'))) w1
            = (Inr (config, ex, du), w')"
    unfolding through5_def by (rule andThen_returnsE)
  obtain config0 ex0 du0 where r0: "r0 = (config0, ex0, du0)" by (cases r0)
  from b r0 obtain u where ph: "phase5 rt ex0 du0 w1 = (Inr u, w')"
    and e: "ex0 = ex" "config0 = config" "du0 = du"
    by (auto simp: ret_def elim!: andThen_returnsE)
  note a' = a [unfolded r0 e]
  from through4_standing [OF rt a']
  have E: "ex = existingStateOf rt lm flagsIp w" and s: "standing rt ex 4 w1" by blast+
  have "standing rt ex 5 w'"
    by (rule standing_step [where m = "phase5 rt ex du" and ?w1.0 = w1 and x = u])
      (use s ph e in \<open>simp_all add: phase5_inv [OF rt]\<close>)
  with E show ?thesis by simp
qed

lemma through6_standing:
  assumes rt: "roundTrip rt" and r: "through6 rt lm flagsIp w = (Inr (config, ex, du, img), w')"
  shows "ex = existingStateOf rt lm flagsIp w \<and> standing rt ex 6 w'"
proof -
  from r obtain r0 w1 where a: "through5 rt lm flagsIp w = (Inr r0, w1)"
    and b: "(case r0 of (config, existingState, deployUser') \<Rightarrow>
               andThen (phase6 rt config existingState deployUser') (\<lambda>imageName.
                 ret (config, existingState, deployUser', imageName))) w1
            = (Inr (config, ex, du, img), w')"
    unfolding through6_def by (rule andThen_returnsE)
  obtain config0 ex0 du0 where r0: "r0 = (config0, ex0, du0)" by (cases r0)
  from b r0 obtain u where ph: "phase6 rt config0 ex0 du0 w1 = (Inr u, w')"
    and e: "ex0 = ex" "config0 = config" "du0 = du"
    by (auto simp: ret_def elim!: andThen_returnsE)
  note a' = a [unfolded r0 e]
  from through5_standing [OF rt a']
  have E: "ex = existingStateOf rt lm flagsIp w" and s: "standing rt ex 5 w1" by blast+
  have "standing rt ex 6 w'"
    by (rule standing_step [where m = "phase6 rt config ex du" and ?w1.0 = w1 and x = u])
      (use s ph e in \<open>simp_all add: phase6_inv [OF rt]\<close>)
  with E show ?thesis by simp
qed

lemma through7_standing:
  assumes rt: "roundTrip rt" and r: "through7 rt lm flagsIp w = (Inr (config, ex, du, img), w')"
  shows "ex = existingStateOf rt lm flagsIp w \<and> standing rt ex 7 w'"
proof -
  from r obtain r0 w1 where a: "through6 rt lm flagsIp w = (Inr r0, w1)"
    and b: "(case r0 of (config, existingState, deployUser', imageName) \<Rightarrow>
               andThen (phase7 rt existingState deployUser' imageName) (\<lambda>u.
                 ret (config, existingState, deployUser', imageName))) w1
            = (Inr (config, ex, du, img), w')"
    unfolding through7_def by (rule andThen_returnsE)
  obtain config0 ex0 du0 img0 where r0: "r0 = (config0, ex0, du0, img0)" by (cases r0)
  from b r0 obtain u where ph: "phase7 rt ex0 du0 img0 w1 = (Inr u, w')"
    and e: "ex0 = ex" "config0 = config" "du0 = du" "img0 = img"
    by (auto simp: ret_def elim!: andThen_returnsE)
  note a' = a [unfolded r0 e]
  from through6_standing [OF rt a']
  have E: "ex = existingStateOf rt lm flagsIp w" and s: "standing rt ex 6 w1" by blast+
  have "standing rt ex 7 w'"
    by (rule standing_step [where m = "phase7 rt ex du img" and ?w1.0 = w1 and x = u])
      (use s ph e in \<open>simp_all add: phase7_inv [OF rt]\<close>)
  with E show ?thesis by simp
qed

lemma through8_standing:
  assumes rt: "roundTrip rt"
    and r: "through8 rt lm flagsIp w = (Inr (config, ex, du, img, tok), w')"
  shows "ex = existingStateOf rt lm flagsIp w \<and> standing rt ex 8 w'"
proof -
  from r obtain r0 w1 where a: "through7 rt lm flagsIp w = (Inr r0, w1)"
    and b: "(case r0 of (config, existingState, deployUser', imageName) \<Rightarrow>
               andThen (phase8 rt config existingState deployUser') (\<lambda>gatewayToken.
                 ret (config, existingState, deployUser', imageName, gatewayToken))) w1
            = (Inr (config, ex, du, img, tok), w')"
    unfolding through8_def by (rule andThen_returnsE)
  obtain config0 ex0 du0 img0 where r0: "r0 = (config0, ex0, du0, img0)" by (cases r0)
  from b r0 obtain u where ph: "phase8 rt config0 ex0 du0 w1 = (Inr u, w')"
    and e: "ex0 = ex" "config0 = config" "du0 = du" "img0 = img"
    by (auto simp: ret_def elim!: andThen_returnsE)
  note a' = a [unfolded r0 e]
  from through7_standing [OF rt a']
  have E: "ex = existingStateOf rt lm flagsIp w" and s: "standing rt ex 7 w1" by blast+
  have "standing rt ex 8 w'"
    by (rule standing_step [where m = "phase8 rt config ex du" and ?w1.0 = w1 and x = u])
      (use s ph e in \<open>simp_all add: phase8_inv [OF rt]\<close>)
  with E show ?thesis by simp
qed

lemma returned_Some:
  "returned m w = Some w' \<Longrightarrow> \<exists>x. m w = (Inr x, w')"
  by (auto simp: returned_def split: prod.splits sum.splits)

lemma standing_cong:
  "stateFile w' = stateFile w \<Longrightarrow> connected w' = connected w
   \<Longrightarrow> standing rt ex k w' = standing rt ex k w"
  by (simp add: standing_def stateInv_def recorded_def persisted_def)

lemma quiet_createInstanceArtifact: "quiet (createInstanceArtifact lm)"
  by (simp add: createInstanceArtifact_def)

lemma through9_standing:
  assumes rt: "roundTrip rt"
    and r: "through9 rt lm flagsIp w = (Inr (config, ex, du, img, tok), w')"
  shows "ex = existingStateOf rt lm flagsIp w \<and> standing rt ex 8 w'"
proof -
  from r obtain r0 w1 where a: "through8 rt lm flagsIp w = (Inr r0, w1)"
    and b: "(case r0 of (config, existingState, deployUser', imageName, gatewayToken) \<Rightarrow>
               andThen (logEvent (LogPhase 9)) (\<lambda>u1.
               andThen (createInstanceArtifact lm) (\<lambda>u2.
                 ret (config, existingState, deployUser', imageName, gatewayToken)))) w1
            = (Inr (config, ex, du, img, tok), w')"
    unfolding through9_def by (rule andThen_returnsE)
  obtain c0 e0 d0 i0 t0 where r0: "r0 = (c0, e0, d0, i0, t0)" by (cases r0) auto
  from through8_standing [OF rt a [unfolded r0]]
  have s: "e0 = existingStateOf rt lm flagsIp w" "standing rt e0 8 w1" by blast+
  let ?m = "andThen (logEvent (LogPhase 9)) (\<lambda>u1.
            andThen (createInstanceArtifact lm) (\<lambda>u2. ret (c0, e0, d0, i0, t0)))"
  have q: "quiet ?m"
    by (intro quiet_andThen quiet_logEvent quiet_createInstanceArtifact quiet_ret)
  from b r0 have m: "?m w1 = (Inr (config, ex, du, img, tok), w')" by simp
  from m have e: "ex = e0"
    by (auto simp: ret_def elim!: andThen_returnsE)
  from quietD [OF q m] have "stateFile w' = stateFile w1" "connected w' = connected w1"
    by simp_all
  from standing_cong [OF this] s e show ?thesis by simp
qed

lemma worldBefore_standing:
  assumes rt: "roundTrip rt" and b: "worldBefore k rt lm flagsIp w = Some w'"
  shows "3 \<le> k \<and> k \<le> 10 \<and>
         standing rt (existingStateOf rt lm flagsIp w) (min (k - 1) 8) w'"
proof -
  from b have k: "k = 3 \<or> k = 4 \<or> k = 5 \<or> k = 6 \<or> k = 7 \<or> k = 8 \<or> k = 9 \<or> k = 10"
    by (simp add: worldBefore_def split: if_splits)
  then show ?thesis
  proof (elim disjE)
    assume "k = 3"
    with b obtain x where "through2 rt lm flagsIp w = (Inr x, w')"
      by (auto simp: worldBefore_def dest: returned_Some)
    with through2_standing [OF rt, of lm flagsIp w "fst x" "snd x" w'] \<open>k = 3\<close>
    show ?thesis by auto
  next
    assume "k = 4"
    with b obtain x where "through3 rt lm flagsIp w = (Inr x, w')"
      by (auto simp: worldBefore_def dest: returned_Some)
    with through3_standing [OF rt, of lm flagsIp w "fst x" "snd x" w'] \<open>k = 4\<close>
    show ?thesis by auto
  next
    assume "k = 5"
    with b obtain x where "through4 rt lm flagsIp w = (Inr x, w')"
      by (auto simp: worldBefore_def dest: returned_Some)
    with through4_standing [OF rt, of lm flagsIp w "fst x" "fst (snd x)" "snd (snd x)" w']
      \<open>k = 5\<close>
    show ?thesis by auto
  next
    assume "k = 6"
    with b obtain x where "through5 rt lm flagsIp w = (Inr x, w')"
      by (auto simp: worldBefore_def dest: returned_Some)
    with through5_standing [OF rt, of lm flagsIp w "fst x" "fst (snd x)" "snd (snd x)" w']
      \<open>k = 6\<close>
    show ?thesis by auto
  next
    assume "k = 7"
    with b obtain x where "through6 rt lm flagsIp w = (Inr x, w')"
      by (auto simp: worldBefore_def dest: returned_Some)
    with through6_standing [OF rt, of lm flagsIp w "fst x" "fst (snd x)" "fst (snd (snd x))"
        "snd (snd (snd x))" w'] \<open>k = 7\<close>
    show ?thesis by auto
  next
    assume "k = 8"
    with b obtain x where "through7 rt lm flagsIp w = (Inr x, w')"
      by (auto simp: worldBefore_def dest: returned_Some)
    with through7_standing [OF rt, of lm flagsIp w "fst x" "fst (snd x)" "fst (snd (snd x))"
        "snd (snd (snd x))" w'] \<open>k = 8\<close>
    show ?thesis by auto
  next
    assume "k = 9"
    with b obtain x where "through8 rt lm flagsIp w = (Inr x, w')"
      by (auto simp: worldBefore_def dest: returned_Some)
    with through8_standing [OF rt, of lm flagsIp w "fst x" "fst (snd x)" "fst (snd (snd x))"
        "fst (snd (snd (snd x)))" "snd (snd (snd (snd x)))" w'] \<open>k = 9\<close>
    show ?thesis by auto
  next
    assume "k = 10"
    with b obtain x where "through9 rt lm flagsIp w = (Inr x, w')"
      by (auto simp: worldBefore_def dest: returned_Some)
    with through9_standing [OF rt, of lm flagsIp w "fst x" "fst (snd x)" "fst (snd (snd x))"
        "fst (snd (snd (snd x)))" "snd (snd (snd (snd x)))" w'] \<open>k = 10\<close>
    show ?thesis by auto
  qed
qed

section \<open>Claim C1: completed phases are persisted before the next phase\<close>




section \<open>Claim C6: an unreadable or corrupt state file is no prior state\<close>

lemma loadState_cases:
  "loadState rt w =
     (case exec (''cat '' @ STATE_FILE) w of
        (Inl (Error msg), w') \<Rightarrow> (Inr None, w')
      | (Inl (ProcessExit n), w') \<Rightarrow> (Inl (ProcessExit n), w')
      | (Inr result, w') \<Rightarrow>
          (if exitCode result \<noteq> 0 then (Inr None, w')
           else (Inr (JSON_parse rt (stdout result)), w')))"
  by (auto simp: loadState_def tryCatch_def andThen_def ret_def throw_def parseState_def
      split: prod.splits sum.splits option.splits error.splits)

lemma exec_never_exits: "fst (exec command w) \<noteq> Inl (ProcessExit n)"
  by (simp add: exec_def split: prod.splits reply.splits)

text \<open>
  C6. Whenever the read of the state file fails (the command is rejected, the session is
  not connected, or the exit status is not zero) or its output is not valid JSON,
  \<^verbatim>\<open>loadState\<close> returns null without raising; so does \<^verbatim>\<open>detectPartialDeployment\<close>, and
  \<^verbatim>\<open>existingState\<close> is null after the check for a partial deployment: the run proceeds
  as a fresh one.
\<close>

theorem loadState_unreadable_or_corrupt:
  assumes "case exec (''cat '' @ STATE_FILE) w of
             (Inl e, w') \<Rightarrow> True
           | (Inr result, w') \<Rightarrow>
               exitCode result \<noteq> 0 \<or> JSON_parse rt (stdout result) = None"
  shows "fst (loadState rt w) = Inr None \<and> fst (detectPartialDeployment rt w) = Inr None
         \<and> fst (resumeCheck rt config w) = Inr None"
proof -
  obtain r w1 where e: "exec (''cat '' @ STATE_FILE) w = (r, w1)"
    by (cases "exec (''cat '' @ STATE_FILE) w")
  from exec_never_exits [of "''cat '' @ STATE_FILE" w] e have ne: "\<And>n. r \<noteq> Inl (ProcessExit n)"
    by simp
  have l: "loadState rt w = (Inr None, w1)"
  proof (cases r)
    case (Inl err)
    with ne obtain msg where "err = Error msg" by (cases err) auto
    with Inl e show ?thesis by (simp add: loadState_cases)
  next
    case (Inr result)
    with assms e show ?thesis by (auto simp: loadState_cases)
  qed
  then have d: "detectPartialDeployment rt w = (Inr None, w1)"
    by (simp add: detectPartialDeployment_def andThen_def ret_def)
  then have "resumeCheck rt config w = (Inr None, w1)"
    by (simp add: resumeCheck_def andThen_def ret_def)
  with l d show ?thesis by simp
qed

theorem loadState_unreadable_or_corrupt_witness:
  "(case exec (''cat '' @ STATE_FILE)
           \<lparr>connected = True, stateFile = Some ''{ instanceName: truncated'', replies = [], trace = []\<rparr> of
      (Inl e, w') \<Rightarrow> True
    | (Inr result, w') \<Rightarrow>
        exitCode result \<noteq> 0 \<or> JSON_parse sampleRuntime (stdout result) = None) \<and>
   fst (loadState sampleRuntime
          \<lparr>connected = True, stateFile = Some ''{ instanceName: truncated'', replies = [], trace = []\<rparr>)
     = Inr None \<and>
   fst (detectPartialDeployment sampleRuntime
          \<lparr>connected = True, stateFile = Some ''{ instanceName: truncated'', replies = [], trace = []\<rparr>)
     = Inr None \<and>
   fst (resumeCheck sampleRuntime sampleConfig
          \<lparr>connected = True, stateFile = Some ''{ instanceName: truncated'', replies = [], trace = []\<rparr>)
     = Inr None"
proof -
  let ?w = "\<lparr>connected = True, stateFile = Some ''{ instanceName: truncated'', replies = [],
             trace = []\<rparr>"
  have h: "case exec (''cat '' @ STATE_FILE) ?w of
             (Inl e, w') \<Rightarrow> True
           | (Inr result, w') \<Rightarrow>
               exitCode result \<noteq> 0 \<or> JSON_parse sampleRuntime (stdout result) = None"
    by code_simp
  from loadState_unreadable_or_corrupt [OF h, of sampleConfig] h show ?thesis by blast
qed


section \<open>Claim C10: an update changes one phase and the last phase only\<close>

text \<open>
  C10. For a connected session whose state file holds a readable state \<open>state\<close>, and a
  runtime that reads back what it writes: when \<^verbatim>\<open>updateState(n, s)\<close> returns, the file
  holds a state with \<open>phases[n] = s\<close> and \<open>lastPhase = n\<close> whose instance name,
  deployment id, start time, metadata and every other phase status are those of \<open>state\<close>.
\<close>

theorem updateState_rewrites_only_phase:
  assumes "roundTrip rt" and "connected w" and "persisted rt w = Some state"
    and "fst (updateState rt n s w) = Inr ()"
  shows "persisted rt (snd (updateState rt n s w)) \<noteq> None \<and>
         map_of (phases (the (persisted rt (snd (updateState rt n s w))))) n = Some s \<and>
         lastPhase (the (persisted rt (snd (updateState rt n s w)))) = n \<and>
         instanceName (the (persisted rt (snd (updateState rt n s w)))) = instanceName state \<and>
         deploymentId (the (persisted rt (snd (updateState rt n s w)))) = deploymentId state \<and>
         startedAt (the (persisted rt (snd (updateState rt n s w)))) = startedAt state \<and>
         metadata (the (persisted rt (snd (updateState rt n s w)))) = metadata state \<and>
         (\<forall>m. m \<noteq> n \<longrightarrow>
            map_of (phases (the (persisted rt (snd (updateState rt n s w))))) m =
            map_of (phases state) m)"
proof -
  obtain w' where r: "updateState rt n s w = (Inr (), w')"
    using assms(4) by (cases "updateState rt n s w") auto
  from updateState_effect [OF assms(2) r] assms(3)
  have "stateFile w' =
          Some (JSON_stringify rt (state\<lparr>phases := AList.update n s (phases state),
                                          lastPhase := n\<rparr>))"
    by simp
  with assms(1) have "persisted rt w' =
      Some (state\<lparr>phases := AList.update n s (phases state), lastPhase := n\<rparr>)"
    by (simp add: persisted_def roundTrip_def)
  with r show ?thesis by (simp add: update_conv')
qed

theorem updateState_rewrites_only_phase_witness:
  "roundTrip sampleRuntime \<and>
   connected (sessionWith (Some (encState sampleState)) [ok]) \<and>
   persisted sampleRuntime (sessionWith (Some (encState sampleState)) [ok]) = Some sampleState \<and>
   fst (updateState sampleRuntime 5 failed (sessionWith (Some (encState sampleState)) [ok])) = Inr () \<and>
   phases (the (persisted sampleRuntime
            (snd (updateState sampleRuntime 5 failed
                    (sessionWith (Some (encState sampleState)) [ok]))))) =
     [(1, pending), (2, pending), (3, pending), (4, complete), (5, failed),
      (6, pending), (7, pending), (8, pending), (9, pending), (10, pending)] \<and>
   metadata (the (persisted sampleRuntime
            (snd (updateState sampleRuntime 5 failed
                    (sessionWith (Some (encState sampleState)) [ok]))))) = metadata sampleState"
proof -
  have h1: "roundTrip sampleRuntime" by (rule sampleRuntime_roundTrip)
  have h2: "connected (sessionWith (Some (encState sampleState)) [ok])"
    by (simp add: sessionWith_def)
  have h3: "persisted sampleRuntime (sessionWith (Some (encState sampleState)) [ok])
            = Some sampleState"
    by (simp add: persisted_def sessionWith_def sampleRuntime_def decState_encState)
  have h4: "fst (updateState sampleRuntime 5 failed
                   (sessionWith (Some (encState sampleState)) [ok])) = Inr ()"
    by code_simp
  have h5: "phases (the (persisted sampleRuntime
            (snd (updateState sampleRuntime 5 failed
                    (sessionWith (Some (encState sampleState)) [ok]))))) =
     [(1, pending), (2, pending), (3, pending), (4, complete), (5, failed),
      (6, pending), (7, pending), (8, pending), (9, pending), (10, pending)]"
    by code_simp
  from updateState_rewrites_only_phase [OF h1 h2 h3 h4] h1 h2 h3 h4 h5 show ?thesis by simp
qed

section \<open>Claim C9: the completion marker decides the outcome of onboarding\<close>

lemma exec_scripted:
  assumes "connected w" and "\<not> stateCommand command" and "replies w = r # rs"
  shows "exec command w =
     (case r of
        Rejects \<Rightarrow> Inl (Error ''exec failed'')
      | Reply code out err \<Rightarrow> Inr \<lparr>exitCode = code, stdout = out, stderr = err\<rparr>,
      w\<lparr>trace := trace w @ [Exec command], replies := rs\<rparr>)"
  using assms
  by (cases r) (simp_all add: exec_def hostExec_def stateCommand_def nextReply_def)

lemma checkOnboardingComplete_scripted:
  assumes "connected w" and "replies w = r # rs"
  shows "checkOnboardingComplete h w =
     (case r of
        Rejects \<Rightarrow> Inl (Error ''exec failed'')
      | Reply code out err \<Rightarrow> Inr (code = 0),
      w\<lparr>trace := trace w @ [Exec (''test -f '' @ h @ ''/.openclaw/openclaw.json'')],
         replies := rs\<rparr>)"
proof -
  have n: "\<not> stateCommand (''test -f '' @ h @ ''/.openclaw/openclaw.json'')"
    by (simp add: stateCommand_unfold)
  show ?thesis
    unfolding checkOnboardingComplete_def andThen_def exec_scripted [OF assms(1) n assms(2)]
    by (cases r) (simp_all add: ret_def)
qed

lemma execInteractive_caught:
  assumes "connected w" and "replies w = r # rs"
  shows "tryCatch (execInteractive command) (\<lambda>error. ret ()) w =
     (Inr (), w\<lparr>trace := trace w @ [ExecInteractive command], replies := rs\<rparr>)"
  using assms
  by (cases r) (simp_all add: tryCatch_def execInteractive_def nextReply_def ret_def)

lemma issued_appended [simp]:
  "issued w (w\<lparr>trace := trace w @ es, replies := rs\<rparr>) = es"
  by (simp add: issued_def)

lemma answers_consumed [simp]:
  "replies w = used @ rs \<Longrightarrow> answers w (w\<lparr>trace := es, replies := rs\<rparr>) = used"
  by (simp add: answers_def)

lemma runOnboarding_scripted:
  assumes "connected w" and "replies w = Reply c1 o1 e1 # pty # marker # rest" and "c1 \<noteq> 0"
  shows "runOnboarding userInfo False w =
     (case marker of
        Rejects \<Rightarrow> Inl (Error ''exec failed'')
      | Reply code out err \<Rightarrow>
          if code = 0 then Inr ()
          else Inl (Error ''Onboarding failed - config file not found''),
      w\<lparr>trace := trace w @
           [Exec (''test -f '' @ home userInfo @ ''/.openclaw/openclaw.json''),
            ExecInteractive
              (''cd '' @ home userInfo @ ''/docker && sudo -u '' @ username userInfo @
               '' docker compose run --rm -it openclaw-cli onboard --no-install-daemon''),
            Exec (''test -f '' @ home userInfo @ ''/.openclaw/openclaw.json'')],
         replies := rest\<rparr>)"
proof -
  let ?t1 = "Exec (''test -f '' @ home userInfo @ ''/.openclaw/openclaw.json'')"
  let ?w1 = "w\<lparr>trace := trace w @ [?t1], replies := pty # marker # rest\<rparr>"
  let ?cmd = "''cd '' @ (home userInfo @ ''/docker'') @ '' && sudo -u '' @ username userInfo @
                 '' docker compose run --rm -it openclaw-cli onboard --no-install-daemon''"
  let ?w2 = "?w1\<lparr>trace := trace ?w1 @ [ExecInteractive ?cmd], replies := marker # rest\<rparr>"
  let ?w3 = "?w2\<lparr>trace := trace ?w2 @ [?t1], replies := rest\<rparr>"
  have 1: "checkOnboardingComplete (home userInfo) w = (Inr False, ?w1)"
    using checkOnboardingComplete_scripted [OF assms(1,2)] assms(3) by simp
  have c1: "connected ?w1" using assms(1) by simp
  have 2: "tryCatch (execInteractive ?cmd) (\<lambda>error. ret ()) ?w1 = (Inr (), ?w2)"
    using execInteractive_caught [OF c1, of pty "marker # rest" ?cmd] by simp
  have c2: "connected ?w2" using assms(1) by simp
  have 3: "checkOnboardingComplete (home userInfo) ?w2 =
             (case marker of Rejects \<Rightarrow> Inl (Error ''exec failed'')
              | Reply code out err \<Rightarrow> Inr (code = 0), ?w3)"
    using checkOnboardingComplete_scripted [OF c2, of marker rest "home userInfo"] by simp
  have "runOnboarding userInfo False w =
     (case marker of
        Rejects \<Rightarrow> Inl (Error ''exec failed'')
      | Reply code out err \<Rightarrow>
          if code = 0 then Inr ()
          else Inl (Error ''Onboarding failed - config file not found''), ?w3)"
    using 1 2 3
    by (cases marker) (simp_all add: runOnboarding_def Let_def andThen_def ret_def throw_def)
  then show ?thesis by simp
qed

text \<open>
  C9. With a connected session and no skip requested, let the host answer the first
  request with \<open>first\<close>, a reply that is not exit status 0, and the next two with \<open>pty\<close> and
  \<open>marker\<close>. Then the requests of \<^verbatim>\<open>runOnboarding\<close> are, in this order, the test of the
  marker file (answered by \<open>first\<close>: the marker is absent), the onboarding command in an
  interactive session (answered by \<open>pty\<close>) and the test of the marker file again (answered
  by \<open>marker\<close>); and the action returns normally exactly when \<open>marker\<close> is exit status 0,
  whatever \<open>pty\<close> is (a session rejected with an error, or closed with any status);
  otherwise it raises an error.
\<close>

theorem onboarding_succeeds_iff_marker:
  assumes "connected w" and "replies w = first # pty # marker # rest"
    and "first \<noteq> Rejects" and "\<not> exitsZero first"
  shows "issued w (snd (runOnboarding userInfo False w)) =
           [Exec (''test -f '' @ home userInfo @ ''/.openclaw/openclaw.json''),
            ExecInteractive
              (''cd '' @ home userInfo @ ''/docker && sudo -u '' @ username userInfo @
               '' docker compose run --rm -it openclaw-cli onboard --no-install-daemon''),
            Exec (''test -f '' @ home userInfo @ ''/.openclaw/openclaw.json'')] \<and>
         answers w (snd (runOnboarding userInfo False w)) = [first, pty, marker] \<and>
         (fst (runOnboarding userInfo False w) = Inr ()) = exitsZero marker \<and>
         (\<not> exitsZero marker \<longrightarrow>
            fst (runOnboarding userInfo False w) =
              Inl (Error (if marker = Rejects then ''exec failed''
                          else ''Onboarding failed - config file not found'')))"
proof -
  from assms(3,4) obtain c1 o1 e1 where f: "first = Reply c1 o1 e1" and c1: "c1 \<noteq> 0"
    by (cases first) auto
  note run = runOnboarding_scripted [OF assms(1) assms(2) [unfolded f] c1, of userInfo]
  have u: "replies w = [first, pty, marker] @ rest" using assms(2) by simp
  show ?thesis
    unfolding run using u by (cases marker) simp_all
qed

theorem onboarding_succeeds_iff_marker_witness:
  "connected (sessionWith None [Reply 1 [] [], Rejects, ok]) \<and>
   fst (runOnboarding sampleUser False (sessionWith None [Reply 1 [] [], Rejects, ok])) = Inr () \<and>
   issued (sessionWith None [Reply 1 [] [], Rejects, ok])
     (snd (runOnboarding sampleUser False (sessionWith None [Reply 1 [] [], Rejects, ok]))) =
     [Exec ''test -f /home/roboclaw/.openclaw/openclaw.json'',
      ExecInteractive (''cd /home/roboclaw/docker && sudo -u roboclaw '' @
        ''docker compose run --rm -it openclaw-cli onboard --no-install-daemon''),
      Exec ''test -f /home/roboclaw/.openclaw/openclaw.json''] \<and>
   connected (sessionWith None [Reply 1 [] [], ok, Reply 1 [] []]) \<and>
   fst (runOnboarding sampleUser False (sessionWith None [Reply 1 [] [], ok, Reply 1 [] []])) =
     Inl (Error ''Onboarding failed - config file not found'')"
proof -
  let ?w1 = "sessionWith None [Reply 1 [] [], Rejects, ok]"
  let ?w2 = "sessionWith None [Reply 1 [] [], ok, Reply 1 [] []]"
  have c: "connected ?w1" "connected ?w2"
    by (simp_all add: sessionWith_def)
  have r1: "replies ?w1 = Reply 1 [] [] # Rejects # ok # []"
    by (simp add: sessionWith_def)
  have r2: "replies ?w2 = Reply 1 [] [] # ok # Reply 1 [] [] # []"
    by (simp add: sessionWith_def)
  have n: "Reply 1 [] [] \<noteq> Rejects" "\<not> exitsZero (Reply 1 [] [])" by simp_all
  from onboarding_succeeds_iff_marker [OF c(1) r1 n, of sampleUser]
    onboarding_succeeds_iff_marker [OF c(2) r2 n, of sampleUser] c
  show ?thesis by (simp add: ok_def sampleUser_def)
qed

section \<open>Claim C8: an image reference is returned only after verification\<close>

lemma trim_strips_unicode_space:
  "trim ([CHR 0xEF, CHR 0xBB, CHR 0xBF] @ ''1000'' @ [CHR 0xC2, CHR 0xA0, CHR 0x0A]) = ''1000''"
  by code_simp

lemma verifyImage_scripted:
  assumes "connected w" and "replies w = r # rs"
  shows "verifyImage imageName u g w =
     (case r of
        Rejects \<Rightarrow> Inl (Error ''exec failed'')
      | Reply code out err \<Rightarrow> Inr (reportsUid u r),
      w\<lparr>trace := trace w @ [Exec (VERIFY_CMD imageName u g)], replies := rs\<rparr>)"
proof -
  have n: "\<not> stateCommand (''docker run --rm --user '' @ showNat u @ '':'' @ showNat g @ '' '' @
              imageName @ '' id -u'')"
    by (simp add: stateCommand_unfold)
  show ?thesis
    unfolding verifyImage_def andThen_def exec_scripted [OF assms(1) n assms(2)] VERIFY_CMD_def
    by (cases r) (simp_all add: ret_def Let_def)
qed

lemma checkImageExists_scripted:
  assumes "connected w" and "replies w = r # rs"
  shows "checkImageExists imageName w =
     (case r of
        Rejects \<Rightarrow> Inl (Error ''exec failed'')
      | Reply code out err \<Rightarrow> Inr (listsImage r),
      w\<lparr>trace := trace w @ [Exec (''docker images -q '' @ imageName)], replies := rs\<rparr>)"
proof -
  have n: "\<not> stateCommand (''docker images -q '' @ imageName)"
    by (simp add: stateCommand_unfold)
  show ?thesis
    unfolding checkImageExists_def andThen_def exec_scripted [OF assms(1) n assms(2)]
    by (cases r) (simp_all add: ret_def)
qed

lemma execStream_scripted:
  assumes "connected w" and "\<not> stateCommand command" and "replies w = r # rs"
  shows "execStream command w =
     (case r of
        Rejects \<Rightarrow> Inl (Error ''exec failed'')
      | Reply code out err \<Rightarrow> Inr code,
      w\<lparr>trace := trace w @ [ExecStream command], replies := rs\<rparr>)"
  using assms
  by (cases r) (simp_all add: execStream_def hostExec_def stateCommand_def nextReply_def)

lemma checkRepoExists_scripted:
  assumes "connected w" and "replies w = r # rs"
  shows "checkRepoExists repoPath w =
     (case r of
        Rejects \<Rightarrow> Inl (Error ''exec failed'')
      | Reply code out err \<Rightarrow> Inr (exitsZero r),
      w\<lparr>trace := trace w @ [Exec (''test -d '' @ repoPath @ ''/.git'')], replies := rs\<rparr>)"
proof -
  have n: "\<not> stateCommand (''test -d '' @ repoPath @ ''/.git'')"
    by (simp add: stateCommand_unfold)
  show ?thesis
    unfolding checkRepoExists_def andThen_def exec_scripted [OF assms(1) n assms(2)]
    by (cases r) (simp_all add: ret_def)
qed

text \<open>
  A request that returns was made on a connected session and consumed a reply of the
  script that is not a rejection.
\<close>

lemma exec_returns_connected:
  assumes "exec command w = (Inr x, w')"
  shows "connected w"
  using assms by (cases "connected w") (simp_all add: exec_def)

lemma execStream_returns_connected:
  assumes "execStream command w = (Inr x, w')"
  shows "connected w"
  using assms by (cases "connected w") (simp_all add: execStream_def)

lemma exec_unanswered:
  assumes "connected w" and "\<not> stateCommand command" and "replies w = []"
  shows "fst (exec command w) = Inl (Error ''exec failed'')"
  using assms by (simp add: exec_def hostExec_def stateCommand_def nextReply_def)

lemma execStream_unanswered:
  assumes "connected w" and "\<not> stateCommand command" and "replies w = []"
  shows "fst (execStream command w) = Inl (Error ''exec failed'')"
  using assms by (simp add: execStream_def hostExec_def stateCommand_def nextReply_def)

lemma checkImageExists_answered:
  assumes "checkImageExists imageName w = (Inr b, w')"
  shows "connected w \<and>
         (\<exists>r rs. replies w = r # rs \<and> r \<noteq> Rejects \<and> b = listsImage r \<and>
            w' = w\<lparr>trace := trace w @ [Exec (''docker images -q '' @ imageName)],
                    replies := rs\<rparr>)"
proof -
  have n: "\<not> stateCommand (''docker images -q '' @ imageName)"
    by (simp add: stateCommand_unfold)
  from assms have c: "connected w"
    by (auto simp: checkImageExists_def elim!: andThen_returnsE dest: exec_returns_connected)
  have u: "replies w = [] \<Longrightarrow> fst (checkImageExists imageName w) = Inl (Error ''exec failed'')"
    using exec_unanswered [OF c n]
    by (cases "exec (''docker images -q '' @ imageName) w")
      (simp add: checkImageExists_def andThen_def)
  show ?thesis
  proof (cases "replies w")
    case Nil
    from u [OF Nil] assms show ?thesis by simp
  next
    case (Cons r rs)
    from checkImageExists_scripted [OF c Cons] assms Cons c show ?thesis
      by (cases r) auto
  qed
qed

lemma verifyImage_answered:
  assumes "verifyImage imageName u g w = (Inr b, w')"
  shows "connected w \<and>
         (\<exists>r rs. replies w = r # rs \<and> r \<noteq> Rejects \<and> b = reportsUid u r \<and>
            w' = w\<lparr>trace := trace w @ [Exec (VERIFY_CMD imageName u g)], replies := rs\<rparr>)"
proof -
  have n: "\<not> stateCommand (''docker run --rm --user '' @ showNat u @ '':'' @ showNat g @ '' '' @
              imageName @ '' id -u'')"
    by (simp add: stateCommand_unfold)
  from assms have c: "connected w"
    by (auto simp: verifyImage_def elim!: andThen_returnsE dest: exec_returns_connected)
  have u: "replies w = [] \<Longrightarrow> fst (verifyImage imageName u g w) = Inl (Error ''exec failed'')"
    using exec_unanswered [OF c n]
    by (cases "exec (''docker run --rm --user '' @ showNat u @ '':'' @ showNat g @ '' '' @
              imageName @ '' id -u'') w")
      (simp add: verifyImage_def andThen_def)
  show ?thesis
  proof (cases "replies w")
    case Nil
    from u [OF Nil] assms show ?thesis by simp
  next
    case (Cons r rs)
    from verifyImage_scripted [OF c Cons] assms Cons c show ?thesis
      by (cases r) auto
  qed
qed

lemma checkRepoExists_answered:
  assumes "checkRepoExists repoPath w = (Inr b, w')"
  shows "connected w \<and>
         (\<exists>r rs. replies w = r # rs \<and> r \<noteq> Rejects \<and> b = exitsZero r \<and>
            w' = w\<lparr>trace := trace w @ [Exec (''test -d '' @ repoPath @ ''/.git'')],
                    replies := rs\<rparr>)"
proof -
  have n: "\<not> stateCommand (''test -d '' @ repoPath @ ''/.git'')"
    by (simp add: stateCommand_unfold)
  from assms have c: "connected w"
    by (auto simp: checkRepoExists_def elim!: andThen_returnsE dest: exec_returns_connected)
  have u: "replies w = [] \<Longrightarrow> fst (checkRepoExists repoPath w) = Inl (Error ''exec failed'')"
    using exec_unanswered [OF c n]
    by (cases "exec (''test -d '' @ repoPath @ ''/.git'') w")
      (simp add: checkRepoExists_def andThen_def)
  show ?thesis
  proof (cases "replies w")
    case Nil
    from u [OF Nil] assms show ?thesis by simp
  next
    case (Cons r rs)
    from checkRepoExists_scripted [OF c Cons] assms Cons c show ?thesis
      by (cases r) auto
  qed
qed

lemma execStream_answered:
  assumes "execStream command w = (Inr code, w')" and "\<not> stateCommand command"
  shows "connected w \<and>
         (\<exists>r rs. replies w = r # rs \<and> r \<noteq> Rejects \<and> (code = 0) = exitsZero r \<and>
            w' = w\<lparr>trace := trace w @ [ExecStream command], replies := rs\<rparr>)"
proof -
  from assms(1) have c: "connected w" by (rule execStream_returns_connected)
  show ?thesis
  proof (cases "replies w")
    case Nil
    from execStream_unanswered [OF c assms(2) Nil] assms(1) show ?thesis by simp
  next
    case (Cons r rs)
    from execStream_scripted [OF c assms(2) Cons] assms(1) Cons c show ?thesis
      by (cases r) auto
  qed
qed

lemma exec_answered:
  assumes "exec command w = (Inr res, w')" and "\<not> stateCommand command"
  shows "connected w \<and>
         (\<exists>r rs. replies w = r # rs \<and> r \<noteq> Rejects \<and>
            w' = w\<lparr>trace := trace w @ [Exec command], replies := rs\<rparr>)"
proof -
  from assms(1) have c: "connected w" by (rule exec_returns_connected)
  show ?thesis
  proof (cases "replies w")
    case Nil
    from exec_unanswered [OF c assms(2) Nil] assms(1) show ?thesis by simp
  next
    case (Cons r rs)
    from exec_scripted [OF c assms(2) Cons] assms(1) Cons c show ?thesis
      by (cases r) auto
  qed
qed


lemma fetch_not_state:
  "\<not> stateCommand (if b then UPDATE_REPO_CMD repoPath name br else CLONE_REPO_CMD repoPath name br)"
  by (simp add: stateCommand_unfold UPDATE_REPO_CMD_def CLONE_REPO_CMD_def)

lemma build_not_state: "\<not> stateCommand (BUILD_CMD repoPath imageName)"
  by (simp add: stateCommand_unfold BUILD_CMD_def)

lemma rmi_not_state: "\<not> stateCommand (''docker rmi '' @ imageName)"
  by (simp add: stateCommand_unfold)

lemma rebuildImage_scripted:
  assumes c: "connected w"
    and r: "replies w = r4 # r5 # r6 # r7 # r8 # rest"
    and ok: "r4 \<noteq> Rejects" "r5 \<noteq> Rejects" "exitsZero r6" "listsImage r7"
  shows "rebuildImage userInfo br IMAGE w =
           (if reportsUid (uid userInfo) r8 then Inr IMAGE
            else Inl (Error (if r8 = Rejects then ''exec failed''
                             else ''Built image failed verification'')),
            w\<lparr>trace := trace w @ rebuildRequests userInfo br r4, replies := rest\<rparr>)"
proof -
  let ?repo = "home userInfo @ ''/openclaw-src''"
  let ?fetch = "if exitsZero r4 then UPDATE_REPO_CMD ?repo (username userInfo) br
                else CLONE_REPO_CMD ?repo (username userInfo) br"
  let ?w1 = "w\<lparr>trace := trace w @ [Exec (''test -d '' @ ?repo @ ''/.git'')],
               replies := r5 # r6 # r7 # r8 # rest\<rparr>"
  have 1: "checkRepoExists ?repo w = (Inr (exitsZero r4), ?w1)"
    using checkRepoExists_scripted [OF c r, of ?repo] ok(1) by (cases r4) simp_all
  have c1: "connected ?w1" using c by simp
  let ?w2 = "?w1\<lparr>trace := trace ?w1 @ [ExecStream ?fetch], replies := r6 # r7 # r8 # rest\<rparr>"
  obtain c5 where 2: "execStream ?fetch ?w1 = (Inr c5, ?w2)"
    using execStream_scripted [OF c1 fetch_not_state, of r5 "r6 # r7 # r8 # rest"] ok(2)
    by (cases r5) auto
  then have f2: "(if exitsZero r4 then execStream (UPDATE_REPO_CMD ?repo (username userInfo) br)
                  else execStream (CLONE_REPO_CMD ?repo (username userInfo) br)) ?w1 =
                 (Inr c5, ?w2)"
    by (cases "exitsZero r4") simp_all
  have c2: "connected ?w2" using c by simp
  let ?w3 = "?w2\<lparr>trace := trace ?w2 @ [ExecStream (BUILD_CMD ?repo IMAGE)],
                 replies := r7 # r8 # rest\<rparr>"
  have 3: "execStream (BUILD_CMD ?repo IMAGE) ?w2 = (Inr 0, ?w3)"
    using execStream_scripted [OF c2 build_not_state, of r6 "r7 # r8 # rest"] ok(3)
    by (cases r6) simp_all
  have c3: "connected ?w3" using c by simp
  let ?w4 = "?w3\<lparr>trace := trace ?w3 @ [Exec (''docker images -q '' @ IMAGE)],
                 replies := r8 # rest\<rparr>"
  have 4: "checkImageExists IMAGE ?w3 = (Inr True, ?w4)"
    using checkImageExists_scripted [OF c3, of r7 "r8 # rest" IMAGE] ok(4)
    by (cases r7) simp_all
  have c4: "connected ?w4" using c by simp
  let ?w5 = "?w4\<lparr>trace := trace ?w4 @ [Exec (VERIFY_CMD IMAGE (uid userInfo) (gid userInfo))],
                 replies := rest\<rparr>"
  have 5: "verifyImage IMAGE (uid userInfo) (gid userInfo) ?w4 =
             (case r8 of Rejects \<Rightarrow> Inl (Error ''exec failed'')
              | Reply code out err \<Rightarrow> Inr (reportsUid (uid userInfo) r8), ?w5)"
    using verifyImage_scripted [OF c4, of r8 rest IMAGE "uid userInfo" "gid userInfo"]
    by simp
  have w5: "?w5 = w\<lparr>trace := trace w @ rebuildRequests userInfo br r4, replies := rest\<rparr>"
    by (simp add: rebuildRequests_def)
  have "rebuildImage userInfo br IMAGE w =
           (if reportsUid (uid userInfo) r8 then Inr IMAGE
            else Inl (Error (if r8 = Rejects then ''exec failed''
                             else ''Built image failed verification'')), ?w5)"
    using 1 f2 3 4 5
    by (cases r8) (simp_all add: rebuildImage_def Let_def andThen_def ret_def throw_def)
  then show ?thesis unfolding w5 .
qed

lemma rebuildImage_answered:
  assumes "rebuildImage userInfo br IMAGE w = (Inr x, w')"
  shows "x = IMAGE \<and> connected w \<and>
         (\<exists>r4 r5 r6 r7 r8 rest.
            replies w = r4 # r5 # r6 # r7 # r8 # rest \<and>
            exitsZero r6 \<and> listsImage r7 \<and> reportsUid (uid userInfo) r8 \<and>
            w' = w\<lparr>trace := trace w @ rebuildRequests userInfo br r4, replies := rest\<rparr>)"
proof -
  let ?repo = "home userInfo @ ''/openclaw-src''"
  from assms obtain b1 w1 where 1: "checkRepoExists ?repo w = (Inr b1, w1)"
    unfolding rebuildImage_def Let_def by (rule andThen_returnsE)
  from checkRepoExists_answered [OF 1] obtain r4 rs1 where c: "connected w"
    and r4: "replies w = r4 # rs1" "r4 \<noteq> Rejects" "b1 = exitsZero r4"
    and w1: "w1 = w\<lparr>trace := trace w @ [Exec (''test -d '' @ ?repo @ ''/.git'')], replies := rs1\<rparr>"
    by blast
  let ?fetch = "if exitsZero r4 then UPDATE_REPO_CMD ?repo (username userInfo) br
                else CLONE_REPO_CMD ?repo (username userInfo) br"
  from assms 1 have "andThen
        (if b1 then execStream (UPDATE_REPO_CMD ?repo (username userInfo) br)
         else execStream (CLONE_REPO_CMD ?repo (username userInfo) br))
        (\<lambda>ignored.
      andThen (execStream (BUILD_CMD ?repo IMAGE)) (\<lambda>buildResult.
        if buildResult \<noteq> 0 then throw ''Docker image build failed''
        else
          andThen (checkImageExists IMAGE) (\<lambda>built.
            if \<not> built then throw ''Image build completed but image not found''
            else
              andThen (verifyImage IMAGE (uid userInfo) (gid userInfo)) (\<lambda>isUsable.
                if \<not> isUsable then throw ''Built image failed verification''
                else ret IMAGE)))) w1 = (Inr x, w')"
    by (simp add: rebuildImage_def Let_def andThen_def)
  then obtain ig w2 where f2: "(if b1 then execStream (UPDATE_REPO_CMD ?repo (username userInfo) br)
         else execStream (CLONE_REPO_CMD ?repo (username userInfo) br)) w1 = (Inr ig, w2)"
    and k2: "andThen (execStream (BUILD_CMD ?repo IMAGE)) (\<lambda>buildResult.
        if buildResult \<noteq> 0 then throw ''Docker image build failed''
        else
          andThen (checkImageExists IMAGE) (\<lambda>built.
            if \<not> built then throw ''Image build completed but image not found''
            else
              andThen (verifyImage IMAGE (uid userInfo) (gid userInfo)) (\<lambda>isUsable.
                if \<not> isUsable then throw ''Built image failed verification''
                else ret IMAGE))) w2 = (Inr x, w')"
    by (rule andThen_returnsE)
  from f2 r4(3) have 2: "execStream ?fetch w1 = (Inr ig, w2)"
    by (cases "exitsZero r4") simp_all
  from execStream_answered [OF 2 fetch_not_state] obtain r5 rs2
    where r5: "replies w1 = r5 # rs2" "r5 \<noteq> Rejects"
      and w2: "w2 = w1\<lparr>trace := trace w1 @ [ExecStream ?fetch], replies := rs2\<rparr>"
    by blast
  from k2 obtain code w3 where 3: "execStream (BUILD_CMD ?repo IMAGE) w2 = (Inr code, w3)"
    and k3: "(if code \<noteq> 0 then throw ''Docker image build failed''
        else
          andThen (checkImageExists IMAGE) (\<lambda>built.
            if \<not> built then throw ''Image build completed but image not found''
            else
              andThen (verifyImage IMAGE (uid userInfo) (gid userInfo)) (\<lambda>isUsable.
                if \<not> isUsable then throw ''Built image failed verification''
                else ret IMAGE))) w3 = (Inr x, w')"
    by (rule andThen_returnsE)
  from k3 have code: "code = 0" by (cases "code = 0") (simp_all add: throw_def)
  from execStream_answered [OF 3 build_not_state] code obtain r6 rs3
    where r6: "replies w2 = r6 # rs3" "exitsZero r6"
      and w3: "w3 = w2\<lparr>trace := trace w2 @ [ExecStream (BUILD_CMD ?repo IMAGE)], replies := rs3\<rparr>"
    by auto
  from k3 code obtain built w4 where 4: "checkImageExists IMAGE w3 = (Inr built, w4)"
    and k4: "(if \<not> built then throw ''Image build completed but image not found''
            else
              andThen (verifyImage IMAGE (uid userInfo) (gid userInfo)) (\<lambda>isUsable.
                if \<not> isUsable then throw ''Built image failed verification''
                else ret IMAGE)) w4 = (Inr x, w')"
    by (auto elim!: andThen_returnsE)
  from k4 have built: "built" by (cases built) (simp_all add: throw_def)
  from checkImageExists_answered [OF 4] built obtain r7 rs4
    where r7: "replies w3 = r7 # rs4" "listsImage r7"
      and w4: "w4 = w3\<lparr>trace := trace w3 @ [Exec (''docker images -q '' @ IMAGE)], replies := rs4\<rparr>"
    by auto
  from k4 built obtain usable w5
    where 5: "verifyImage IMAGE (uid userInfo) (gid userInfo) w4 = (Inr usable, w5)"
      and k5: "(if \<not> usable then throw ''Built image failed verification'' else ret IMAGE) w5
               = (Inr x, w')"
    by (auto elim!: andThen_returnsE)
  from k5 have usable: "usable" and x: "x = IMAGE" and w': "w' = w5"
    by (cases usable; simp add: throw_def ret_def)+
  from verifyImage_answered [OF 5] usable obtain r8 rs5
    where r8: "replies w4 = r8 # rs5" "reportsUid (uid userInfo) r8"
      and w5: "w5 = w4\<lparr>trace := trace w4 @ [Exec (VERIFY_CMD IMAGE (uid userInfo) (gid userInfo))],
                       replies := rs5\<rparr>"
    by auto
  from r4(1) r5(1) r6(1) r7(1) r8(1) w1 w2 w3 w4
  have rs: "replies w = r4 # r5 # r6 # r7 # r8 # rs5" by simp
  have fin: "w' = w\<lparr>trace := trace w @ rebuildRequests userInfo br r4, replies := rs5\<rparr>"
    unfolding w' w5 w4 w3 w2 w1 by (simp add: rebuildRequests_def)
  from x c rs r6(2) r7(2) r8(2) fin show ?thesis by blast
qed


lemma answers_prefix:
  "replies w = used @ rs \<Longrightarrow> w' = w\<lparr>trace := es, replies := rs\<rparr> \<Longrightarrow> answers w w' = used"
  by (simp add: answers_def)

lemma issued_suffix:
  "w' = w\<lparr>trace := trace w @ es, replies := rs\<rparr> \<Longrightarrow> issued w w' = es"
  by (simp add: issued_def)

lemma buildImage_stale_scripted:
  assumes c: "connected w"
    and r: "replies w = r1 # r2 # r3 # r4 # r5 # r6 # r7 # r8 # rest"
    and stale: "listsImage r1" "r2 \<noteq> Rejects" "\<not> reportsUid (uid userInfo) r2"
    and ok: "r3 \<noteq> Rejects" "r4 \<noteq> Rejects" "r5 \<noteq> Rejects" "exitsZero r6" "listsImage r7"
  shows "buildImage userInfo br w =
           (if reportsUid (uid userInfo) r8 then Inr IMAGE
            else Inl (Error (if r8 = Rejects then ''exec failed''
                             else ''Built image failed verification'')),
            w\<lparr>trace := trace w @
                 [Exec (''docker images -q '' @ IMAGE),
                  Exec (VERIFY_CMD IMAGE (uid userInfo) (gid userInfo)),
                  Exec (''docker rmi '' @ IMAGE)] @ rebuildRequests userInfo br r4,
               replies := rest\<rparr>)"
proof -
  let ?w1 = "w\<lparr>trace := trace w @ [Exec (''docker images -q '' @ IMAGE)],
               replies := r2 # r3 # r4 # r5 # r6 # r7 # r8 # rest\<rparr>"
  have 1: "checkImageExists IMAGE w = (Inr True, ?w1)"
    using checkImageExists_scripted [OF c r, of IMAGE] stale(1) by (cases r1) simp_all
  have c1: "connected ?w1" using c by simp
  let ?w2 = "?w1\<lparr>trace := trace ?w1 @ [Exec (VERIFY_CMD IMAGE (uid userInfo) (gid userInfo))],
                 replies := r3 # r4 # r5 # r6 # r7 # r8 # rest\<rparr>"
  have 2: "verifyImage IMAGE (uid userInfo) (gid userInfo) ?w1 = (Inr False, ?w2)"
    using verifyImage_scripted [OF c1, of r2 "r3 # r4 # r5 # r6 # r7 # r8 # rest" IMAGE
        "uid userInfo" "gid userInfo"] stale(2,3)
    by (cases r2) simp_all
  have c2: "connected ?w2" using c by simp
  let ?w3 = "?w2\<lparr>trace := trace ?w2 @ [Exec (''docker rmi '' @ IMAGE)],
                 replies := r4 # r5 # r6 # r7 # r8 # rest\<rparr>"
  obtain res where 3: "exec (''docker rmi '' @ IMAGE) ?w2 = (Inr res, ?w3)"
    using exec_scripted [OF c2 rmi_not_state, of r3 "r4 # r5 # r6 # r7 # r8 # rest" IMAGE] ok(1)
    by (cases r3) auto
  have c3: "connected ?w3" using c by simp
  have r3: "replies ?w3 = r4 # r5 # r6 # r7 # r8 # rest" by simp
  note 4 = rebuildImage_scripted [OF c3 r3 ok(2,3,4,5), of userInfo br]
  show ?thesis
    using 1 2 3 4
    by (simp add: buildImage_def Let_def IMAGE_def [symmetric] andThen_def ret_def)
qed

lemma buildImage_fresh_scripted:
  assumes c: "connected w"
    and r: "replies w = r1 # r4 # r5 # r6 # r7 # r8 # rest"
    and none: "r1 \<noteq> Rejects" "\<not> listsImage r1"
    and ok: "r4 \<noteq> Rejects" "r5 \<noteq> Rejects" "exitsZero r6" "listsImage r7"
  shows "buildImage userInfo br w =
           (if reportsUid (uid userInfo) r8 then Inr IMAGE
            else Inl (Error (if r8 = Rejects then ''exec failed''
                             else ''Built image failed verification'')),
            w\<lparr>trace := trace w @
                 [Exec (''docker images -q '' @ IMAGE)] @ rebuildRequests userInfo br r4,
               replies := rest\<rparr>)"
proof -
  let ?w1 = "w\<lparr>trace := trace w @ [Exec (''docker images -q '' @ IMAGE)],
               replies := r4 # r5 # r6 # r7 # r8 # rest\<rparr>"
  have 1: "checkImageExists IMAGE w = (Inr False, ?w1)"
    using checkImageExists_scripted [OF c r, of IMAGE] none by (cases r1) simp_all
  have c1: "connected ?w1" using c by simp
  have r1: "replies ?w1 = r4 # r5 # r6 # r7 # r8 # rest" by simp
  note 4 = rebuildImage_scripted [OF c1 r1 ok, of userInfo br]
  show ?thesis
    using 1 4
    by (simp add: buildImage_def Let_def IMAGE_def [symmetric] andThen_def ret_def)
qed

lemma buildImage_answered:
  assumes "buildImage userInfo br w = (Inr x, w')"
  shows "x = IMAGE \<and>
     ((\<exists>r1 r2.
         answers w w' = [r1, r2] \<and> listsImage r1 \<and> reportsUid (uid userInfo) r2 \<and>
         issued w w' =
           [Exec (''docker images -q '' @ IMAGE),
            Exec (VERIFY_CMD IMAGE (uid userInfo) (gid userInfo))]) \<or>
      (\<exists>r1 r2 r3 r4 r5 r6 r7 r8.
         answers w w' = [r1, r2, r3, r4, r5, r6, r7, r8] \<and>
         listsImage r1 \<and> \<not> reportsUid (uid userInfo) r2 \<and>
         exitsZero r6 \<and> listsImage r7 \<and> reportsUid (uid userInfo) r8 \<and>
         issued w w' =
           [Exec (''docker images -q '' @ IMAGE),
            Exec (VERIFY_CMD IMAGE (uid userInfo) (gid userInfo)),
            Exec (''docker rmi '' @ IMAGE)] @ rebuildRequests userInfo br r4) \<or>
      (\<exists>r1 r4 r5 r6 r7 r8.
         answers w w' = [r1, r4, r5, r6, r7, r8] \<and>
         \<not> listsImage r1 \<and>
         exitsZero r6 \<and> listsImage r7 \<and> reportsUid (uid userInfo) r8 \<and>
         issued w w' =
           [Exec (''docker images -q '' @ IMAGE)] @ rebuildRequests userInfo br r4))"
proof -
  from assms obtain ex w1 where 1: "checkImageExists IMAGE w = (Inr ex, w1)"
    and k1: "(if ex then
              andThen (verifyImage IMAGE (uid userInfo) (gid userInfo)) (\<lambda>isUsable.
                if isUsable then ret IMAGE
                else andThen (exec (''docker rmi '' @ IMAGE)) (\<lambda>r.
                       rebuildImage userInfo br IMAGE))
             else rebuildImage userInfo br IMAGE) w1 = (Inr x, w')"
    unfolding buildImage_def Let_def IMAGE_def [symmetric] by (rule andThen_returnsE)
  from checkImageExists_answered [OF 1] obtain r1 rs1
    where r1: "replies w = r1 # rs1" "ex = listsImage r1"
      and w1: "w1 = w\<lparr>trace := trace w @ [Exec (''docker images -q '' @ IMAGE)], replies := rs1\<rparr>"
    by blast
  show ?thesis
  proof (cases ex)
    case False
    with k1 have "rebuildImage userInfo br IMAGE w1 = (Inr x, w')" by simp
    from rebuildImage_answered [OF this] obtain r4 r5 r6 r7 r8 rest
      where x: "x = IMAGE"
        and rs: "replies w1 = r4 # r5 # r6 # r7 # r8 # rest"
        and ok: "exitsZero r6" "listsImage r7" "reportsUid (uid userInfo) r8"
        and w': "w' = w1\<lparr>trace := trace w1 @ rebuildRequests userInfo br r4, replies := rest\<rparr>"
      by blast
    from r1(1) rs w1 have all: "replies w = [r1, r4, r5, r6, r7, r8] @ rest" by simp
    have fin: "w' = w\<lparr>trace := trace w @ [Exec (''docker images -q '' @ IMAGE)] @
                                rebuildRequests userInfo br r4, replies := rest\<rparr>"
      unfolding w' w1 by simp
    have a: "answers w w' = [r1, r4, r5, r6, r7, r8]" by (rule answers_prefix [OF all fin])
    have i: "issued w w' = [Exec (''docker images -q '' @ IMAGE)] @ rebuildRequests userInfo br r4"
      by (rule issued_suffix [OF fin])
    from False r1(2) have "\<not> listsImage r1" by simp
    with x a i ok show ?thesis by blast
  next
    case True
    with k1 obtain usable w2
      where 2: "verifyImage IMAGE (uid userInfo) (gid userInfo) w1 = (Inr usable, w2)"
        and k2: "(if usable then ret IMAGE
                  else andThen (exec (''docker rmi '' @ IMAGE)) (\<lambda>r.
                         rebuildImage userInfo br IMAGE)) w2 = (Inr x, w')"
      by (auto elim: andThen_returnsE)
    from verifyImage_answered [OF 2] obtain r2 rs2
      where r2: "replies w1 = r2 # rs2" "usable = reportsUid (uid userInfo) r2"
        and w2: "w2 = w1\<lparr>trace := trace w1 @
                                  [Exec (VERIFY_CMD IMAGE (uid userInfo) (gid userInfo))],
                          replies := rs2\<rparr>"
      by blast
    from True r1(2) have l1: "listsImage r1" by simp
    show ?thesis
    proof (cases usable)
      case True
      with k2 have x: "x = IMAGE" and w': "w' = w2" by (simp_all add: ret_def)
      from r1(1) r2(1) w1 have all: "replies w = [r1, r2] @ rs2" by simp
      have fin: "w' = w\<lparr>trace := trace w @
                      [Exec (''docker images -q '' @ IMAGE),
                       Exec (VERIFY_CMD IMAGE (uid userInfo) (gid userInfo))],
                    replies := rs2\<rparr>"
        unfolding w' w2 w1 by simp
      have a: "answers w w' = [r1, r2]" by (rule answers_prefix [OF all fin])
      have i: "issued w w' = [Exec (''docker images -q '' @ IMAGE),
                              Exec (VERIFY_CMD IMAGE (uid userInfo) (gid userInfo))]"
        by (rule issued_suffix [OF fin])
      from True r2(2) have "reportsUid (uid userInfo) r2" by simp
      with x a i l1 show ?thesis by blast
    next
      case False
      with k2 obtain res w3 where 3: "exec (''docker rmi '' @ IMAGE) w2 = (Inr res, w3)"
        and k3: "rebuildImage userInfo br IMAGE w3 = (Inr x, w')"
        by (auto elim: andThen_returnsE)
      from exec_answered [OF 3 rmi_not_state] obtain r3 rs3
        where r3: "replies w2 = r3 # rs3"
          and w3: "w3 = w2\<lparr>trace := trace w2 @ [Exec (''docker rmi '' @ IMAGE)], replies := rs3\<rparr>"
        by blast
      from rebuildImage_answered [OF k3] obtain r4 r5 r6 r7 r8 rest
        where x: "x = IMAGE"
          and rs: "replies w3 = r4 # r5 # r6 # r7 # r8 # rest"
          and ok: "exitsZero r6" "listsImage r7" "reportsUid (uid userInfo) r8"
          and w': "w' = w3\<lparr>trace := trace w3 @ rebuildRequests userInfo br r4, replies := rest\<rparr>"
        by blast
      from r1(1) r2(1) r3 rs w1 w2 w3
      have all: "replies w = [r1, r2, r3, r4, r5, r6, r7, r8] @ rest" by simp
      have fin: "w' = w\<lparr>trace := trace w @
                      [Exec (''docker images -q '' @ IMAGE),
                       Exec (VERIFY_CMD IMAGE (uid userInfo) (gid userInfo)),
                       Exec (''docker rmi '' @ IMAGE)] @ rebuildRequests userInfo br r4,
                    replies := rest\<rparr>"
        unfolding w' w3 w2 w1 by simp
      have a: "answers w w' = [r1, r2, r3, r4, r5, r6, r7, r8]"
        by (rule answers_prefix [OF all fin])
      have i: "issued w w' =
                 [Exec (''docker images -q '' @ IMAGE),
                  Exec (VERIFY_CMD IMAGE (uid userInfo) (gid userInfo)),
                  Exec (''docker rmi '' @ IMAGE)] @ rebuildRequests userInfo br r4"
        by (rule issued_suffix [OF fin])
      from False r2(2) have "\<not> reportsUid (uid userInfo) r2" by simp
      with x a i l1 ok show ?thesis by blast
    qed
  qed
qed


text \<open>
  C8. Three statements about \<^verbatim>\<open>buildImage\<close>, where the requests of a run and the replies
  that answered them are read off the trace and the script (\<open>issued\<close>, \<open>answers\<close>).
  \<^item> Whenever it returns, what it returns is the image reference, and the run was one of
    three: the listing showed the image and the verification that followed reported the
    target uid; or the listing showed the image, the verification did not report the
    target uid, and the run went on with \<^verbatim>\<open>docker rmi\<close>, the requests of a rebuild, the last
    of which, the verification of the image built, reported the target uid; or the listing
    showed no image and the run made the requests of a rebuild, with the same end. In each
    the last request is the verification run as the target uid:gid and the last reply
    reports that uid.
  \<^item> When the tagged image is listed and its verification answers without reporting the
    target uid, and the removal, the check of the repository, the update or clone, the
    build (exit status 0) and the listing (showing the image) are answered, the run makes
    exactly these requests: listing, verification, \<^verbatim>\<open>docker rmi\<close>, and the requests of a
    rebuild; it returns the reference if the verification of the image built reports the
    target uid and raises an error otherwise.
  \<^item> The same when no image is listed, without the verification and the removal.
\<close>

theorem buildImage_trusts_only_verified:
  "(\<forall>imageName w'. buildImage userInfo br w = (Inr imageName, w') \<longrightarrow>
      imageName = IMAGE \<and>
      ((\<exists>r1 r2.
          answers w w' = [r1, r2] \<and> listsImage r1 \<and> reportsUid (uid userInfo) r2 \<and>
          issued w w' =
            [Exec (''docker images -q '' @ IMAGE),
             Exec (VERIFY_CMD IMAGE (uid userInfo) (gid userInfo))]) \<or>
       (\<exists>r1 r2 r3 r4 r5 r6 r7 r8.
          answers w w' = [r1, r2, r3, r4, r5, r6, r7, r8] \<and>
          listsImage r1 \<and> \<not> reportsUid (uid userInfo) r2 \<and>
          exitsZero r6 \<and> listsImage r7 \<and> reportsUid (uid userInfo) r8 \<and>
          issued w w' =
            [Exec (''docker images -q '' @ IMAGE),
             Exec (VERIFY_CMD IMAGE (uid userInfo) (gid userInfo)),
             Exec (''docker rmi '' @ IMAGE)] @ rebuildRequests userInfo br r4) \<or>
       (\<exists>r1 r4 r5 r6 r7 r8.
          answers w w' = [r1, r4, r5, r6, r7, r8] \<and>
          \<not> listsImage r1 \<and>
          exitsZero r6 \<and> listsImage r7 \<and> reportsUid (uid userInfo) r8 \<and>
          issued w w' =
            [Exec (''docker images -q '' @ IMAGE)] @ rebuildRequests userInfo br r4))) \<and>
   (\<forall>r1 r2 r3 r4 r5 r6 r7 r8 rest.
      connected w \<and> replies w = r1 # r2 # r3 # r4 # r5 # r6 # r7 # r8 # rest \<and>
      listsImage r1 \<and> r2 \<noteq> Rejects \<and> \<not> reportsUid (uid userInfo) r2 \<and>
      r3 \<noteq> Rejects \<and> r4 \<noteq> Rejects \<and> r5 \<noteq> Rejects \<and> exitsZero r6 \<and> listsImage r7 \<longrightarrow>
      issued w (snd (buildImage userInfo br w)) =
        [Exec (''docker images -q '' @ IMAGE),
         Exec (VERIFY_CMD IMAGE (uid userInfo) (gid userInfo)),
         Exec (''docker rmi '' @ IMAGE)] @ rebuildRequests userInfo br r4 \<and>
      answers w (snd (buildImage userInfo br w)) = [r1, r2, r3, r4, r5, r6, r7, r8] \<and>
      fst (buildImage userInfo br w) =
        (if reportsUid (uid userInfo) r8 then Inr IMAGE
         else Inl (Error (if r8 = Rejects then ''exec failed''
                          else ''Built image failed verification'')))) \<and>
   (\<forall>r1 r4 r5 r6 r7 r8 rest.
      connected w \<and> replies w = r1 # r4 # r5 # r6 # r7 # r8 # rest \<and>
      r1 \<noteq> Rejects \<and> \<not> listsImage r1 \<and>
      r4 \<noteq> Rejects \<and> r5 \<noteq> Rejects \<and> exitsZero r6 \<and> listsImage r7 \<longrightarrow>
      issued w (snd (buildImage userInfo br w)) =
        [Exec (''docker images -q '' @ IMAGE)] @ rebuildRequests userInfo br r4 \<and>
      answers w (snd (buildImage userInfo br w)) = [r1, r4, r5, r6, r7, r8] \<and>
      fst (buildImage userInfo br w) =
        (if reportsUid (uid userInfo) r8 then Inr IMAGE
         else Inl (Error (if r8 = Rejects then ''exec failed''
                          else ''Built image failed verification''))))"
proof (intro conjI allI impI)
  fix imageName w'
  assume b: "buildImage userInfo br w = (Inr imageName, w')"
  from buildImage_answered [OF b] show "imageName = IMAGE" by blast
  from buildImage_answered [OF b]
  show "(\<exists>r1 r2.
          answers w w' = [r1, r2] \<and> listsImage r1 \<and> reportsUid (uid userInfo) r2 \<and>
          issued w w' =
            [Exec (''docker images -q '' @ IMAGE),
             Exec (VERIFY_CMD IMAGE (uid userInfo) (gid userInfo))]) \<or>
       (\<exists>r1 r2 r3 r4 r5 r6 r7 r8.
          answers w w' = [r1, r2, r3, r4, r5, r6, r7, r8] \<and>
          listsImage r1 \<and> \<not> reportsUid (uid userInfo) r2 \<and>
          exitsZero r6 \<and> listsImage r7 \<and> reportsUid (uid userInfo) r8 \<and>
          issued w w' =
            [Exec (''docker images -q '' @ IMAGE),
             Exec (VERIFY_CMD IMAGE (uid userInfo) (gid userInfo)),
             Exec (''docker rmi '' @ IMAGE)] @ rebuildRequests userInfo br r4) \<or>
       (\<exists>r1 r4 r5 r6 r7 r8.
          answers w w' = [r1, r4, r5, r6, r7, r8] \<and>
          \<not> listsImage r1 \<and>
          exitsZero r6 \<and> listsImage r7 \<and> reportsUid (uid userInfo) r8 \<and>
          issued w w' =
            [Exec (''docker images -q '' @ IMAGE)] @ rebuildRequests userInfo br r4)"
    by (rule conjunct2)
next
  fix r1 r2 r3 r4 r5 r6 r7 r8 rest
  assume a: "connected w \<and> replies w = r1 # r2 # r3 # r4 # r5 # r6 # r7 # r8 # rest \<and>
      listsImage r1 \<and> r2 \<noteq> Rejects \<and> \<not> reportsUid (uid userInfo) r2 \<and>
      r3 \<noteq> Rejects \<and> r4 \<noteq> Rejects \<and> r5 \<noteq> Rejects \<and> exitsZero r6 \<and> listsImage r7"
  then have c: "connected w"
    and r: "replies w = r1 # r2 # r3 # r4 # r5 # r6 # r7 # r8 # rest"
    and h: "listsImage r1" "r2 \<noteq> Rejects" "\<not> reportsUid (uid userInfo) r2"
      "r3 \<noteq> Rejects" "r4 \<noteq> Rejects" "r5 \<noteq> Rejects" "exitsZero r6" "listsImage r7"
    by blast+
  note run = buildImage_stale_scripted [OF c r h, of br]
  have u: "replies w = [r1, r2, r3, r4, r5, r6, r7, r8] @ rest" using r by simp
  show "issued w (snd (buildImage userInfo br w)) =
        [Exec (''docker images -q '' @ IMAGE),
         Exec (VERIFY_CMD IMAGE (uid userInfo) (gid userInfo)),
         Exec (''docker rmi '' @ IMAGE)] @ rebuildRequests userInfo br r4"
    unfolding run by (simp add: issued_def)
  show "answers w (snd (buildImage userInfo br w)) = [r1, r2, r3, r4, r5, r6, r7, r8]"
    unfolding run using u by (simp add: answers_def)
  show "fst (buildImage userInfo br w) =
        (if reportsUid (uid userInfo) r8 then Inr IMAGE
         else Inl (Error (if r8 = Rejects then ''exec failed''
                          else ''Built image failed verification'')))"
    unfolding run by simp
next
  fix r1 r4 r5 r6 r7 r8 rest
  assume a: "connected w \<and> replies w = r1 # r4 # r5 # r6 # r7 # r8 # rest \<and>
      r1 \<noteq> Rejects \<and> \<not> listsImage r1 \<and>
      r4 \<noteq> Rejects \<and> r5 \<noteq> Rejects \<and> exitsZero r6 \<and> listsImage r7"
  then have c: "connected w"
    and r: "replies w = r1 # r4 # r5 # r6 # r7 # r8 # rest"
    and h: "r1 \<noteq> Rejects" "\<not> listsImage r1"
      "r4 \<noteq> Rejects" "r5 \<noteq> Rejects" "exitsZero r6" "listsImage r7"
    by blast+
  note run = buildImage_fresh_scripted [OF c r h, of userInfo br]
  have u: "replies w = [r1, r4, r5, r6, r7, r8] @ rest" using r by simp
  show "issued w (snd (buildImage userInfo br w)) =
        [Exec (''docker images -q '' @ IMAGE)] @ rebuildRequests userInfo br r4"
    unfolding run by (simp add: issued_def)
  show "answers w (snd (buildImage userInfo br w)) = [r1, r4, r5, r6, r7, r8]"
    unfolding run using u by (simp add: answers_def)
  show "fst (buildImage userInfo br w) =
        (if reportsUid (uid userInfo) r8 then Inr IMAGE
         else Inl (Error (if r8 = Rejects then ''exec failed''
                          else ''Built image failed verification'')))"
    unfolding run by simp
qed

theorem buildImage_trusts_only_verified_witness:
  "connected (staleImageSession (Reply 0 ''1000\<newline>'' [])) \<and>
   fst (buildImage sampleUser ''main'' (staleImageSession (Reply 0 ''1000\<newline>'' []))) = Inr IMAGE \<and>
   issued (staleImageSession (Reply 0 ''1000\<newline>'' []))
     (snd (buildImage sampleUser ''main'' (staleImageSession (Reply 0 ''1000\<newline>'' [])))) =
     [Exec ''docker images -q roboclaw/openclaw:local'',
      Exec ''docker run --rm --user 1000:1000 roboclaw/openclaw:local id -u'',
      Exec ''docker rmi roboclaw/openclaw:local'',
      Exec ''test -d /home/roboclaw/openclaw-src/.git'',
      ExecStream (UPDATE_REPO_CMD ''/home/roboclaw/openclaw-src'' ''roboclaw'' ''main''),
      ExecStream (BUILD_CMD ''/home/roboclaw/openclaw-src'' ''roboclaw/openclaw:local''),
      Exec ''docker images -q roboclaw/openclaw:local'',
      Exec ''docker run --rm --user 1000:1000 roboclaw/openclaw:local id -u''] \<and>
   connected (staleImageSession (Reply 0 ''0\<newline>'' [])) \<and>
   fst (buildImage sampleUser ''main'' (staleImageSession (Reply 0 ''0\<newline>'' []))) =
     Inl (Error ''Built image failed verification'')"
proof -
  let ?good = "Reply 0 ''1000\<newline>'' []"
  let ?bad = "Reply 0 ''0\<newline>'' []"
  let ?r1 = "Reply 0 ''3f1c9a7d2b4e\<newline>'' []"
  let ?r7 = "Reply 0 ''8a6b5c4d3e2f\<newline>'' []"
  have c: "\<And>v. connected (staleImageSession v)"
    by (simp add: staleImageSession_def sessionWith_def)
  have r: "\<And>v. replies (staleImageSession v) = ?r1 # ?bad # ok # ok # ok # ok # ?r7 # v # []"
    by (simp add: staleImageSession_def sessionWith_def)
  have l1: "listsImage ?r1" by code_simp
  have l7: "listsImage ?r7" by code_simp
  have n2: "\<not> reportsUid (uid sampleUser) ?bad" by code_simp
  have g8: "reportsUid (uid sampleUser) ?good" by code_simp
  have k: "?bad \<noteq> Rejects" "ok \<noteq> Rejects" "exitsZero ok" by (simp_all add: ok_def)
  have hyp: "\<And>v. connected (staleImageSession v) \<and>
      replies (staleImageSession v) = ?r1 # ?bad # ok # ok # ok # ok # ?r7 # v # [] \<and>
      listsImage ?r1 \<and> ?bad \<noteq> Rejects \<and> \<not> reportsUid (uid sampleUser) ?bad \<and>
      ok \<noteq> Rejects \<and> ok \<noteq> Rejects \<and> ok \<noteq> Rejects \<and> exitsZero ok \<and> listsImage ?r7"
    using c r l1 l7 n2 k by blast
  note good = buildImage_trusts_only_verified
    [of sampleUser "''main''" "staleImageSession ?good", THEN conjunct2, THEN conjunct1,
     rule_format, OF hyp]
  note bad = buildImage_trusts_only_verified
    [of sampleUser "''main''" "staleImageSession ?bad", THEN conjunct2, THEN conjunct1,
     rule_format, OF hyp]
  have e: "[Exec (''docker images -q '' @ IMAGE),
            Exec (VERIFY_CMD IMAGE (uid sampleUser) (gid sampleUser)),
            Exec (''docker rmi '' @ IMAGE)] @ rebuildRequests sampleUser ''main'' ok =
     [Exec ''docker images -q roboclaw/openclaw:local'',
      Exec ''docker run --rm --user 1000:1000 roboclaw/openclaw:local id -u'',
      Exec ''docker rmi roboclaw/openclaw:local'',
      Exec ''test -d /home/roboclaw/openclaw-src/.git'',
      ExecStream (UPDATE_REPO_CMD ''/home/roboclaw/openclaw-src'' ''roboclaw'' ''main''),
      ExecStream (BUILD_CMD ''/home/roboclaw/openclaw-src'' ''roboclaw/openclaw:local''),
      Exec ''docker images -q roboclaw/openclaw:local'',
      Exec ''docker run --rm --user 1000:1000 roboclaw/openclaw:local id -u'']"
    by code_simp
  from good g8 have 1: "fst (buildImage sampleUser ''main'' (staleImageSession ?good)) = Inr IMAGE"
    by simp
  from good e have 2: "issued (staleImageSession ?good)
     (snd (buildImage sampleUser ''main'' (staleImageSession ?good))) =
     [Exec ''docker images -q roboclaw/openclaw:local'',
      Exec ''docker run --rm --user 1000:1000 roboclaw/openclaw:local id -u'',
      Exec ''docker rmi roboclaw/openclaw:local'',
      Exec ''test -d /home/roboclaw/openclaw-src/.git'',
      ExecStream (UPDATE_REPO_CMD ''/home/roboclaw/openclaw-src'' ''roboclaw'' ''main''),
      ExecStream (BUILD_CMD ''/home/roboclaw/openclaw-src'' ''roboclaw/openclaw:local''),
      Exec ''docker images -q roboclaw/openclaw:local'',
      Exec ''docker run --rm --user 1000:1000 roboclaw/openclaw:local id -u'']"
    by metis
  from bad n2 have 3: "fst (buildImage sampleUser ''main'' (staleImageSession ?bad)) =
     Inl (Error ''Built image failed verification'')"
    by simp
  from c 1 2 3 show ?thesis by blast
qed

section \<open>Claim C7: the pairing automation approves the new request and no other\<close>

lemma hostExec_trace: "trace (snd (hostExec command w)) = trace w"
  by (simp add: hostExec_def split: option.splits)

lemma exec_trace:
  "trace (snd (exec command w)) = trace w @ (if connected w then [Exec command] else [])"
  by (simp add: exec_world hostExec_trace)

lemma exec_keeps_connected: "connected (snd (exec command w)) = connected w"
  by (simp add: exec_world)

lemma getPendingRequests_world:
  "snd (getPendingRequests userInfo w) =
   snd (exec (DEVICES_CMD userInfo @ ''list 2>/dev/null'') w)"
  unfolding getPendingRequests_def tryCatch_def andThen_def ret_def
  by (simp split: prod.splits sum.splits error.splits)

lemma getPendingRequests_result:
  "getPendingRequests userInfo w =
   (Inr (pendingRequests userInfo w), snd (getPendingRequests userInfo w))"
proof -
  let ?cmd = "DEVICES_CMD userInfo @ ''list 2>/dev/null''"
  obtain r w1 where e: "exec ?cmd w = (r, w1)" by (cases "exec ?cmd w")
  from exec_never_exits [of ?cmd w] e have ne: "\<And>n. r \<noteq> Inl (ProcessExit n)" by simp
  have "\<exists>requests. fst (getPendingRequests userInfo w) = Inr requests"
  proof (cases r)
    case (Inl err)
    with ne obtain msg where "err = Error msg" by (cases err) auto
    with Inl e show ?thesis
      by (simp add: getPendingRequests_def tryCatch_def andThen_def ret_def)
  next
    case (Inr result)
    with e show ?thesis
      by (simp add: getPendingRequests_def tryCatch_def andThen_def ret_def)
  qed
  then show ?thesis
    by (cases "getPendingRequests userInfo w") (auto simp: pendingRequests_def)
qed

lemma approvedIds_append:
  "approvedIds userInfo (a @ b) = approvedIds userInfo a @ approvedIds userInfo b"
  by (induction userInfo a rule: approvedIds.induct) simp_all

lemma approvedIds_list:
  "approvedIds userInfo [Exec (DEVICES_CMD userInfo @ ''list 2>/dev/null'')] = []"
  by (simp add: startsWith_def)

lemma approvedIds_approve:
  "approvedIds userInfo [Exec (DEVICES_CMD userInfo @ ''approve '' @ rid)] = [rid]"
  by (simp add: startsWith_def)

lemma poll_keeps_approvals:
  "approvedIds userInfo (trace (snd (getPendingRequests userInfo w))) =
   approvedIds userInfo (trace w)"
proof (cases "connected w")
  case True
  then show ?thesis
    unfolding getPendingRequests_world exec_trace approvedIds_append
    by (simp only: if_True approvedIds_list append_Nil2)
next
  case False
  then show ?thesis
    unfolding getPendingRequests_world exec_trace by simp
qed

lemma poll_keeps_connected: "connected (snd (getPendingRequests userInfo w)) = connected w"
  by (simp add: getPendingRequests_world exec_keeps_connected)

lemma observed_0: "observed userInfo 0 w = pendingRequests userInfo w"
  by (simp add: observed_def)

lemma observed_Suc:
  "observed userInfo (Suc k) w = observed userInfo k (snd (getPendingRequests userInfo w))"
  by (simp add: observed_def)

lemma waitLoop_spec:
  "waitLoop userInfo ids timeoutMs elapsed w = (r, w') \<Longrightarrow>
     approvedIds userInfo (trace w') = approvedIds userInfo (trace w) \<and>
     connected w' = connected w \<and>
     (case r of
        Inl err \<Rightarrow> False
      | Inr None \<Rightarrow>
          (\<forall>k. elapsed + 2000 * k < timeoutMs \<longrightarrow>
             (\<forall>q\<in>set (observed userInfo k w). requestId q \<in> set ids))
      | Inr (Some q0) \<Rightarrow>
          (\<exists>k0. elapsed + 2000 * k0 < timeoutMs \<and>
             find (\<lambda>q. requestId q \<notin> set ids) (observed userInfo k0 w) = Some q0 \<and>
             (\<forall>j<k0. \<forall>q\<in>set (observed userInfo j w). requestId q \<in> set ids)))"
proof (induction userInfo ids timeoutMs elapsed w arbitrary: r w' rule: waitLoop.induct)
  case (1 userInfo ids timeoutMs elapsed w)
  let ?w1 = "snd (getPendingRequests userInfo w)"
  let ?reqs = "pendingRequests userInfo w"
  define w1 where "w1 = ?w1"
  have g: "getPendingRequests userInfo w = (Inr ?reqs, w1)"
    unfolding w1_def by (rule getPendingRequests_result)
  have w1: "?w1 = w1" by (simp add: w1_def)
  show ?case
  proof (cases "elapsed < timeoutMs")
    case False
    with "1.prems" have "r = Inr None" "w' = w"
      by (simp_all add: waitLoop.simps [of userInfo ids timeoutMs elapsed w])
    with False show ?thesis by simp
  next
    case True
    show ?thesis
    proof (cases "find (\<lambda>req. requestId req \<notin> set ids) ?reqs")
      case (Some q)
      with True "1.prems" g have rw: "r = Inr (Some q)" "w' = ?w1"
        by (simp_all add: waitLoop.simps [of userInfo ids timeoutMs elapsed w] w1)
      have "elapsed + 2000 * 0 < timeoutMs \<and>
            find (\<lambda>q. requestId q \<notin> set ids) (observed userInfo 0 w) = Some q \<and>
            (\<forall>j<0. \<forall>q\<in>set (observed userInfo j w). requestId q \<in> set ids)"
        using True Some by (simp add: observed_0)
      then have "\<exists>k0. elapsed + 2000 * k0 < timeoutMs \<and>
            find (\<lambda>q. requestId q \<notin> set ids) (observed userInfo k0 w) = Some q \<and>
            (\<forall>j<k0. \<forall>q\<in>set (observed userInfo j w). requestId q \<in> set ids)"
        by blast
      with rw show ?thesis by (simp add: poll_keeps_approvals poll_keeps_connected)
    next
      case None
      with True "1.prems" g
      have rec: "waitLoop userInfo ids timeoutMs (elapsed + 2000) ?w1 = (r, w')"
        by (simp add: waitLoop.simps [of userInfo ids timeoutMs elapsed w] w1)
      from None have old0: "\<forall>q\<in>set ?reqs. requestId q \<in> set ids"
        by (auto simp: find_None_iff)
      note ih = "1.IH" [OF True getPendingRequests_result [symmetric] refl None rec]
      from ih have a: "approvedIds userInfo (trace w') = approvedIds userInfo (trace w)"
        and c: "connected w' = connected w"
        by (simp_all add: poll_keeps_approvals poll_keeps_connected)
      have "case r of
              Inl err \<Rightarrow> False
            | Inr None \<Rightarrow>
                (\<forall>k. elapsed + 2000 * k < timeoutMs \<longrightarrow>
                   (\<forall>q\<in>set (observed userInfo k w). requestId q \<in> set ids))
            | Inr (Some q0) \<Rightarrow>
                (\<exists>k0. elapsed + 2000 * k0 < timeoutMs \<and>
                   find (\<lambda>q. requestId q \<notin> set ids) (observed userInfo k0 w) = Some q0 \<and>
                   (\<forall>j<k0. \<forall>q\<in>set (observed userInfo j w). requestId q \<in> set ids))"
      proof (cases r)
        case (Inl err)
        with ih show ?thesis by simp
      next
        case (Inr res)
        show ?thesis
        proof (cases res)
          case None
          with Inr ih have all: "\<forall>k. elapsed + 2000 + 2000 * k < timeoutMs \<longrightarrow>
             (\<forall>q\<in>set (observed userInfo k ?w1). requestId q \<in> set ids)" by simp
          have "\<forall>k. elapsed + 2000 * k < timeoutMs \<longrightarrow>
             (\<forall>q\<in>set (observed userInfo k w). requestId q \<in> set ids)"
          proof (intro allI impI)
            fix k assume lt: "elapsed + 2000 * k < timeoutMs"
            show "\<forall>q\<in>set (observed userInfo k w). requestId q \<in> set ids"
            proof (cases k)
              case 0
              with old0 show ?thesis by (simp add: observed_0)
            next
              case (Suc k')
              with lt have "elapsed + 2000 + 2000 * k' < timeoutMs" by simp
              with all Suc show ?thesis by (simp add: observed_Suc)
            qed
          qed
          with Inr None show ?thesis by simp
        next
          case (Some q0)
          with Inr ih have "\<exists>k0. elapsed + 2000 + 2000 * k0 < timeoutMs \<and>
               find (\<lambda>q. requestId q \<notin> set ids) (observed userInfo k0 ?w1) = Some q0 \<and>
               (\<forall>j<k0. \<forall>q\<in>set (observed userInfo j ?w1). requestId q \<in> set ids)"
            by simp
          then obtain k0 where lt: "elapsed + 2000 + 2000 * k0 < timeoutMs"
            and f: "find (\<lambda>q. requestId q \<notin> set ids) (observed userInfo k0 ?w1) = Some q0"
            and old: "\<forall>j<k0. \<forall>q\<in>set (observed userInfo j ?w1). requestId q \<in> set ids"
            by blast
          have "elapsed + 2000 * Suc k0 < timeoutMs" using lt by simp
          moreover have "find (\<lambda>q. requestId q \<notin> set ids) (observed userInfo (Suc k0) w) = Some q0"
            using f by (simp add: observed_Suc)
          moreover have "\<forall>j<Suc k0. \<forall>q\<in>set (observed userInfo j w). requestId q \<in> set ids"
          proof (intro allI impI)
            fix j assume "j < Suc k0"
            then show "\<forall>q\<in>set (observed userInfo j w). requestId q \<in> set ids"
            proof (cases j)
              case 0
              with old0 show ?thesis by (simp add: observed_0)
            next
              case (Suc j')
              assume "j < Suc k0"
              with Suc have "j' < k0" by simp
              with old have "\<forall>q\<in>set (observed userInfo j' ?w1). requestId q \<in> set ids" by blast
              with Suc show ?thesis by (simp add: observed_Suc)
            qed
          qed
          ultimately have "\<exists>k0. elapsed + 2000 * k0 < timeoutMs \<and>
                   find (\<lambda>q. requestId q \<notin> set ids) (observed userInfo k0 w) = Some q0 \<and>
                   (\<forall>j<k0. \<forall>q\<in>set (observed userInfo j w). requestId q \<in> set ids)"
            by blast
          with Inr Some show ?thesis by simp
        qed
      qed
      with a c show ?thesis by simp
    qed
  qed
qed


lemma approveDevice_world:
  "snd (approveDevice userInfo rid w) =
   snd (exec (DEVICES_CMD userInfo @ ''approve '' @ rid) w)"
  unfolding approveDevice_def tryCatch_def andThen_def ret_def
  by (simp split: prod.splits sum.splits error.splits)

lemma approveDevice_returns: "\<exists>approved. fst (approveDevice userInfo rid w) = Inr approved"
proof -
  let ?cmd = "DEVICES_CMD userInfo @ ''approve '' @ rid"
  obtain r w1 where e: "exec ?cmd w = (r, w1)" by (cases "exec ?cmd w")
  from exec_never_exits [of ?cmd w] e have ne: "\<And>n. r \<noteq> Inl (ProcessExit n)" by simp
  show ?thesis
  proof (cases r)
    case (Inl err)
    with ne obtain msg where "err = Error msg" by (cases err) auto
    with Inl e have "fst (approveDevice userInfo rid w) = Inr False"
      by (simp add: approveDevice_def tryCatch_def andThen_def ret_def)
    then show ?thesis by blast
  next
    case (Inr result)
    with e have "fst (approveDevice userInfo rid w) = Inr (exitCode result = 0)"
      by (simp add: approveDevice_def tryCatch_def andThen_def ret_def)
    then show ?thesis by blast
  qed
qed

lemma approveDevice_approvals:
  assumes "connected w"
  shows "approvedIds userInfo (trace (snd (approveDevice userInfo rid w))) =
         approvedIds userInfo (trace w) @ [rid]"
  using assms unfolding approveDevice_world exec_trace approvedIds_append
  by (simp only: if_True approvedIds_approve)

lemma autoConnect_unfold:
  assumes "promptAutoConnect lm" and "tunnelRunning lm"
    and "waitLoop userInfo (map requestId (pendingRequests userInfo w)) 60000 0
           (snd (getPendingRequests userInfo w)) = (Inr found, w2)"
  shows "autoConnect lm userInfo w =
         (case found of
            None \<Rightarrow> (Inr (), w2)
          | Some req \<Rightarrow>
              (Inr (), snd (approveDevice userInfo (requestId req) w2)))"
proof -
  define w1 where "w1 = snd (getPendingRequests userInfo w)"
  have g: "getPendingRequests userInfo w = (Inr (pendingRequests userInfo w), w1)"
    unfolding w1_def by (rule getPendingRequests_result)
  note wl = assms(3) [folded w1_def]
  show ?thesis
  proof (cases found)
    case None
    with assms(1,2) g wl show ?thesis
      by (simp add: autoConnect_def andThen_def Let_def waitForNewPairingRequest_def ret_def)
  next
    case (Some req)
    obtain approved where a: "fst (approveDevice userInfo (requestId req) w2) = Inr approved"
      using approveDevice_returns by blast
    define w3 where "w3 = snd (approveDevice userInfo (requestId req) w2)"
    from a have "approveDevice userInfo (requestId req) w2 = (Inr approved, w3)"
      unfolding w3_def by (cases "approveDevice userInfo (requestId req) w2") simp
    with Some assms(1,2) g wl have "autoConnect lm userInfo w = (Inr (), w3)"
      by (simp add: autoConnect_def andThen_def Let_def waitForNewPairingRequest_def ret_def)
    with Some show ?thesis by (simp add: w3_def)
  qed
qed

text \<open>
  Claim C7. The automation runs with the operator's consent and a tunnel that came up. \<open>B\<close> is
  the set of the ids of the requests pending in the snapshot taken at the start, \<open>w1\<close> the
  host after the snapshot, and \<open>observed userInfo k w1\<close> what the poll number \<open>k\<close> of the
  window reads; the window has the thirty polls that fit in 60 seconds at one poll every two
  seconds. If some poll of the window shows a request whose id is not in \<open>B\<close>, the run adds
  exactly one approval call to those made before, and its id is the id of the first request
  not in \<open>B\<close> of the first poll that shows one. If every request of every poll of the window
  has its id in \<open>B\<close>, the run adds no approval call.
\<close>

theorem autoConnect_approves_exactly_the_new_request:
  assumes "connected w" and "promptAutoConnect lm" and "tunnelRunning lm"
    and "B = set (map requestId (pendingRequests userInfo w))"
    and "w1 = snd (getPendingRequests userInfo w)"
    and "w' = snd (autoConnect lm userInfo w)"
  shows "((\<exists>k<30. \<exists>q\<in>set (observed userInfo k w1). requestId q \<notin> B) \<longrightarrow>
            (\<exists>k0<30. \<exists>q0.
               find (\<lambda>q. requestId q \<notin> B) (observed userInfo k0 w1) = Some q0 \<and>
               (\<forall>j<k0. \<forall>q\<in>set (observed userInfo j w1). requestId q \<in> B) \<and>
               approvedIds userInfo (trace w') =
                 approvedIds userInfo (trace w) @ [requestId q0])) \<and>
         ((\<forall>k<30. \<forall>q\<in>set (observed userInfo k w1). requestId q \<in> B) \<longrightarrow>
            approvedIds userInfo (trace w') = approvedIds userInfo (trace w))"
proof -
  let ?ids = "map requestId (pendingRequests userInfo w)"
  obtain r w2 where wl: "waitLoop userInfo ?ids 60000 0 w1 = (r, w2)"
    by (cases "waitLoop userInfo ?ids 60000 0 w1")
  note spec = waitLoop_spec [OF wl]
  from spec have a2: "approvedIds userInfo (trace w2) = approvedIds userInfo (trace w)"
    unfolding assms(5) poll_keeps_approvals by blast
  from spec have c2: "connected w2"
    unfolding assms(5) poll_keeps_connected using assms(1) by blast
  from spec obtain found where r: "r = Inr found" by (cases r) auto
  note run = autoConnect_unfold [OF assms(2,3) wl [unfolded assms(5) r]]
  have window: "\<And>k. (0 + 2000 * k < (60000::nat)) = (k < 30)" by arith
  show ?thesis
  proof (cases found)
    case None
    with spec r have old: "\<forall>k<30. \<forall>q\<in>set (observed userInfo k w1). requestId q \<in> B"
      unfolding assms(4) window by simp
    from run None have "w' = w2" by (simp add: assms(6))
    with a2 old show ?thesis by blast
  next
    case (Some q0)
    with spec r have "\<exists>k0. k0 < 30 \<and>
        find (\<lambda>q. requestId q \<notin> B) (observed userInfo k0 w1) = Some q0 \<and>
        (\<forall>j<k0. \<forall>q\<in>set (observed userInfo j w1). requestId q \<in> B)"
      unfolding assms(4) window by simp
    then obtain k0 where k0: "k0 < 30"
      and f: "find (\<lambda>q. requestId q \<notin> B) (observed userInfo k0 w1) = Some q0"
      and old: "\<forall>j<k0. \<forall>q\<in>set (observed userInfo j w1). requestId q \<in> B"
      by blast
    from run Some have "w' = snd (approveDevice userInfo (requestId q0) w2)"
      by (simp add: assms(6))
    then have ap: "approvedIds userInfo (trace w') =
                   approvedIds userInfo (trace w) @ [requestId q0]"
      using approveDevice_approvals [OF c2] a2 by simp
    from f have new: "q0 \<in> set (observed userInfo k0 w1)" "requestId q0 \<notin> B"
      by (auto simp: find_Some_iff in_set_conv_nth)
    have first: "\<exists>k0<30. \<exists>q0.
               find (\<lambda>q. requestId q \<notin> B) (observed userInfo k0 w1) = Some q0 \<and>
               (\<forall>j<k0. \<forall>q\<in>set (observed userInfo j w1). requestId q \<in> B) \<and>
               approvedIds userInfo (trace w') =
                 approvedIds userInfo (trace w) @ [requestId q0]"
      using k0 f old ap by blast
    have "\<not> (\<forall>k<30. \<forall>q\<in>set (observed userInfo k w1). requestId q \<in> B)"
      using k0 new by blast
    with first show ?thesis by blast
  qed
qed

theorem autoConnect_approves_exactly_the_new_request_witness:
  "connected pairingSession \<and> promptAutoConnect sampleLocal \<and> tunnelRunning sampleLocal \<and>
   map requestId (pendingRequests sampleUser pairingSession) =
     [''1b4e28ba-2fa1-11d2-883f-0016d3cca427''] \<and>
   map requestId (observed sampleUser 0 (snd (getPendingRequests sampleUser pairingSession))) =
     [''1b4e28ba-2fa1-11d2-883f-0016d3cca427'', ''9c5b94b1-35ad-49bb-b118-8e8fc24abf80''] \<and>
   approvedIds sampleUser (trace (snd (autoConnect sampleLocal sampleUser pairingSession))) =
     [''9c5b94b1-35ad-49bb-b118-8e8fc24abf80'']"
proof -
  let ?w1 = "snd (getPendingRequests sampleUser pairingSession)"
  let ?w' = "snd (autoConnect sampleLocal sampleUser pairingSession)"
  let ?B = "set (map requestId (pendingRequests sampleUser pairingSession))"
  let ?new = "\<lambda>q. requestId q \<notin> ?B"
  have h1: "connected pairingSession" by code_simp
  have h2: "promptAutoConnect sampleLocal" by code_simp
  have h3: "tunnelRunning sampleLocal" by code_simp
  have b: "map requestId (pendingRequests sampleUser pairingSession) =
           [''1b4e28ba-2fa1-11d2-883f-0016d3cca427'']"
    by code_simp
  have p0: "map requestId (observed sampleUser 0 ?w1) =
            [''1b4e28ba-2fa1-11d2-883f-0016d3cca427'', ''9c5b94b1-35ad-49bb-b118-8e8fc24abf80'']"
    by code_simp
  have f0: "map_option requestId (find ?new (observed sampleUser 0 ?w1)) =
            Some ''9c5b94b1-35ad-49bb-b118-8e8fc24abf80''"
    by code_simp
  have t0: "approvedIds sampleUser (trace pairingSession) = []" by code_simp
  from f0 obtain q where q: "find ?new (observed sampleUser 0 ?w1) = Some q"
    by (cases "find ?new (observed sampleUser 0 ?w1)") auto
  then have seen: "q \<in> set (observed sampleUser 0 ?w1)" "requestId q \<notin> ?B"
    by (auto simp: find_Some_iff in_set_conv_nth)
  then have "\<exists>k<30. \<exists>q\<in>set (observed sampleUser k ?w1). requestId q \<notin> ?B"
    by (intro exI [of _ 0]) auto
  with autoConnect_approves_exactly_the_new_request [OF h1 h2 h3 refl refl refl]
  obtain k0 q0 where f: "find ?new (observed sampleUser k0 ?w1) = Some q0"
    and old: "\<forall>j<k0. \<forall>q\<in>set (observed sampleUser j ?w1). requestId q \<in> ?B"
    and ap: "approvedIds sampleUser (trace ?w') =
             approvedIds sampleUser (trace pairingSession) @ [requestId q0]"
    by blast
  have "k0 = 0"
  proof (rule ccontr)
    assume "k0 \<noteq> 0"
    then have "0 < k0" by simp
    with old seen show False by blast
  qed
  with f q have "q0 = q" by simp
  with f0 q have "requestId q0 = ''9c5b94b1-35ad-49bb-b118-8e8fc24abf80''" by simp
  with ap t0 have "approvedIds sampleUser (trace ?w') = [''9c5b94b1-35ad-49bb-b118-8e8fc24abf80'']"
    by simp
  with h1 h2 h3 b p0 show ?thesis by blast
qed

section \<open>Claim C5: a resumed run takes the principal from the persisted state\<close>

lemma hostExec_file:
  "stateFile (snd (hostExec command w)) = stateFile w \<or> stateFile (snd (hostExec command w)) = None"
  by (simp add: hostExec_def split: option.splits)

lemma exec_file:
  "stateFile (snd (exec command w)) = stateFile w \<or> stateFile (snd (exec command w)) = None"
  using hostExec_file [of command "w\<lparr>trace := trace w @ [Exec command]\<rparr>"]
  by (simp add: exec_world)

lemma file_exec:
  "establishes (\<lambda>w. stateFile w = F \<or> stateFile w = None) (exec command)
     (\<lambda>x w. stateFile w = F \<or> stateFile w = None)"
proof (rule establishesI)
  fix w x w'
  assume j: "stateFile w = F \<or> stateFile w = None" and r: "exec command w = (Inr x, w')"
  from r have "w' = snd (exec command w)" by simp
  with exec_file [of command w] j show "stateFile w' = F \<or> stateFile w' = None" by auto
qed

lemma file_quiet:
  assumes "quiet m"
  shows "establishes (\<lambda>w. stateFile w = F \<or> stateFile w = None) m
           (\<lambda>x w. stateFile w = F \<or> stateFile w = None)"
proof (rule establishesI)
  fix w x w'
  assume j: "stateFile w = F \<or> stateFile w = None" and r: "m w = (Inr x, w')"
  from quietD [OF assms r] j show "stateFile w' = F \<or> stateFile w' = None" by auto
qed

lemma connectLoop_file: "stateFile (snd (connectLoop attempt w)) = stateFile w"
proof (induction attempt w rule: connectLoop.induct)
  case (1 attempt w)
  let ?w1 = "w\<lparr>trace := trace w @ [ConnectAttempt attempt]\<rparr>"
  obtain r w2 where n: "nextReply ?w1 = (r, w2)" by (cases "nextReply ?w1")
  from nextReply_keeps [of ?w1] n have k: "stateFile w2 = stateFile w" by simp
  show ?case
  proof (cases "attempt \<le> 3")
    case False
    then show ?thesis unfolding connectLoop.simps [of attempt w] by simp
  next
    case True
    show ?thesis
    proof (cases r)
      case Rejects
      show ?thesis
      proof (cases "attempt = 3")
        case True
        with \<open>attempt \<le> 3\<close> n Rejects k show ?thesis
          unfolding connectLoop.simps [of attempt w] by simp
      next
        case False
        from "1.IH" [OF \<open>attempt \<le> 3\<close> n [symmetric] Rejects False] k
        show ?thesis
          using \<open>attempt \<le> 3\<close> n Rejects False
          unfolding connectLoop.simps [of attempt w] by simp
      qed
    next
      case (Reply code out err)
      with True n k show ?thesis
        unfolding connectLoop.simps [of attempt w] by simp
    qed
  qed
qed

lemma file_connect:
  "establishes (\<lambda>w. stateFile w = F \<or> stateFile w = None) connect
     (\<lambda>x w. stateFile w = F \<or> stateFile w = None)"
proof (rule establishesI)
  fix w x w'
  assume j: "stateFile w = F \<or> stateFile w = None" and r: "connect w = (Inr x, w')"
  from r have "w' = snd (connect w)" by simp
  then have "stateFile w' = stateFile w"
    by (simp add: connect_def connectLoop_file)
  with j show "stateFile w' = F \<or> stateFile w' = None" by auto
qed

lemma file_cleanDeployment:
  "establishes (\<lambda>w. stateFile w = F \<or> stateFile w = None) cleanDeployment
     (\<lambda>x w. stateFile w = F \<or> stateFile w = None)"
  unfolding cleanDeployment_def
  by (intro establishes_andThen [OF file_exec] establishes_ret)

lemma loadState_value:
  assumes "loadState rt w = (Inr loaded, w')"
  shows "loaded = None \<or> loaded = persisted rt w"
proof (cases "connected w")
  case True
  from loadState_connected [OF True, of rt] assms show ?thesis by simp
next
  case False
  from loadState_disconnected [OF False, of rt] assms show ?thesis by simp
qed

lemma detectPartialDeployment_value:
  assumes "detectPartialDeployment rt w = (Inr d, w')"
  shows "d = None \<or> d = persisted rt w"
proof -
  from assms obtain loaded w1 where l: "loadState rt w = (Inr loaded, w1)"
    and k: "(case loaded of
               None \<Rightarrow> ret None
             | Some state \<Rightarrow>
                 (let hasFailedPhases = list_ex (\<lambda>status. status = failed) (map snd (phases state));
                      hasPendingPhases = list_ex (\<lambda>status. status = pending) (map snd (phases state))
                  in if hasFailedPhases \<or> hasPendingPhases then ret (Some state) else ret None)) w1
            = (Inr d, w')"
    unfolding detectPartialDeployment_def by (rule andThen_returnsE)
  from k have "d = None \<or> d = loaded"
    by (auto simp: ret_def Let_def split: option.splits if_splits)
  with loadState_value [OF l] show ?thesis by auto
qed

lemma resumeCheck_value:
  "establishes (\<lambda>w. stateFile w = F \<or> stateFile w = None) (resumeCheck rt config)
     (\<lambda>ex w. ex = None \<or> ex = (case F of None \<Rightarrow> None | Some content \<Rightarrow> JSON_parse rt content))"
proof (rule establishesI)
  fix w ex w'
  assume j: "stateFile w = F \<or> stateFile w = None"
    and r: "resumeCheck rt config w = (Inr ex, w')"
  from r obtain d w1 where d: "detectPartialDeployment rt w = (Inr d, w1)"
    and k: "(if d \<noteq> None \<and> force config then andThen deleteState (\<lambda>u. ret None)
             else ret d) w1 = (Inr ex, w')"
    unfolding resumeCheck_def by (rule andThen_returnsE)
  from k have "ex = None \<or> ex = d"
    by (auto simp: ret_def split: if_splits elim!: andThen_returnsE)
  with detectPartialDeployment_value [OF d] have "ex = None \<or> ex = persisted rt w" by auto
  with j show "ex = None \<or> ex = (case F of None \<Rightarrow> None | Some content \<Rightarrow> JSON_parse rt content)"
    by (auto simp: persisted_def)
qed

lemma prelude_value:
  "establishes (\<lambda>w. stateFile w = F \<or> stateFile w = None) (prelude rt lm flagsIp)
     (\<lambda>r w. snd r = None \<or>
             snd r = (case F of None \<Rightarrow> None | Some content \<Rightarrow> JSON_parse rt content))"
  unfolding prelude_def
  apply (rule establishes_if)
   apply (rule establishes_processExit)
  apply (rule establishes_andThen [OF file_quiet])
   apply (simp add: loadConfig_def split: option.splits)
  apply (rule establishes_andThen [OF file_quiet])
   apply (simp add: validateSSHKey_def quiet_tryCatch)
  apply (rule establishes_andThen [OF file_quiet])
   apply (simp add: readKeyFile_def)
  apply (rule establishes_andThen [OF file_quiet [OF quiet_logEvent]])
  apply (rule establishes_andThen [OF file_connect])
  apply (rule establishes_andThen [OF file_quiet [OF quiet_verifyRootAccess]])
  apply (rule establishes_if)
   apply (rule establishes_processExit)
  apply (rule establishes_andThen [where Q = "\<lambda>x w. stateFile w = F \<or> stateFile w = None"])
   apply (rule establishes_if)
    apply (rule file_cleanDeployment)
   apply (rule file_quiet [OF quiet_ret])
  apply (rule establishes_andThen [OF resumeCheck_value])
  apply (rule establishes_ret)
  apply simp
  done

lemma existingState_persisted:
  assumes "existingStateOf rt lm flagsIp w = Some s0"
  shows "persisted rt w = Some s0"
proof -
  from assms obtain config w1 where p: "prelude rt lm flagsIp w = (Inr (config, Some s0), w1)"
    by (auto simp: existingStateOf_def split: prod.splits sum.splits)
  have "stateFile w = stateFile w \<or> stateFile w = None" by simp
  from establishesD [OF prelude_value, of w "stateFile w", OF this p]
  show ?thesis by (simp add: persisted_def)
qed


lemma through2_origin:
  assumes "through2 rt lm flagsIp w = (Inr (config, ex), w')"
  shows "\<exists>w1. prelude rt lm flagsIp w = (Inr (config, ex), w1)"
  using assms unfolding through2_def
  by (auto simp: ret_def split: prod.splits elim!: andThen_returnsE)

lemma through3_origin:
  assumes "through3 rt lm flagsIp w = (Inr (config, ex), w')"
  shows "\<exists>w1. through2 rt lm flagsIp w = (Inr (config, ex), w1)"
  using assms unfolding through3_def
  by (auto simp: ret_def split: prod.splits elim!: andThen_returnsE)

lemma through4_origin:
  assumes "through4 rt lm flagsIp w = (Inr (config, ex, du), w')"
  shows "\<exists>w1. through3 rt lm flagsIp w = (Inr (config, ex), w1) \<and>
              phase4 rt config ex w1 = (Inr du, w')"
  using assms unfolding through4_def
  by (auto simp: ret_def split: prod.splits elim!: andThen_returnsE)

lemma through5_origin:
  assumes "through5 rt lm flagsIp w = (Inr (config, ex, du), w')"
  shows "\<exists>w1. through4 rt lm flagsIp w = (Inr (config, ex, du), w1)"
  using assms unfolding through5_def
  by (auto simp: ret_def split: prod.splits elim!: andThen_returnsE)

lemma through6_origin:
  assumes "through6 rt lm flagsIp w = (Inr (config, ex, du, img), w')"
  shows "\<exists>w1. through5 rt lm flagsIp w = (Inr (config, ex, du), w1)"
  using assms unfolding through6_def
  by (auto simp: ret_def split: prod.splits elim!: andThen_returnsE)

lemma through7_origin:
  assumes "through7 rt lm flagsIp w = (Inr (config, ex, du, img), w')"
  shows "\<exists>w1. through6 rt lm flagsIp w = (Inr (config, ex, du, img), w1)"
  using assms unfolding through7_def
  by (auto simp: ret_def split: prod.splits elim!: andThen_returnsE)

lemma through8_origin:
  assumes "through8 rt lm flagsIp w = (Inr (config, ex, du, img, tok), w')"
  shows "\<exists>w1. through7 rt lm flagsIp w = (Inr (config, ex, du, img), w1)"
  using assms unfolding through8_def
  by (auto simp: ret_def split: prod.splits elim!: andThen_returnsE)

lemma through9_origin:
  assumes "through9 rt lm flagsIp w = (Inr (config, ex, du, img, tok), w')"
  shows "\<exists>w1. through8 rt lm flagsIp w = (Inr (config, ex, du, img, tok), w1)"
  using assms unfolding through9_def
  by (auto simp: ret_def split: prod.splits elim!: andThen_returnsE)

lemma through3_existing:
  assumes "through3 rt lm flagsIp w = (Inr (config, ex), w')"
  shows "ex = existingStateOf rt lm flagsIp w"
proof -
  from through3_origin [OF assms] obtain w1
    where "through2 rt lm flagsIp w = (Inr (config, ex), w1)" by blast
  from through2_origin [OF this] obtain w0
    where "prelude rt lm flagsIp w = (Inr (config, ex), w0)" by blast
  then show ?thesis by (simp add: existingStateOf_def)
qed

lemma phase4_skipped:
  assumes "isPhaseComplete s0 4"
  shows "phase4 rt config (Some s0) w =
         (Inr (userFromState (Some s0)), w\<lparr>trace := trace w @ [LogPhase 4, LogSkip]\<rparr>)"
  using assms by (simp add: phase4_def skipPhase_def andThen_def logEvent_def ret_def)

lemma principalBefore_origin:
  assumes "principalBefore k rt lm flagsIp w = Some du"
  shows "\<exists>config ex w4. through4 rt lm flagsIp w = (Inr (config, ex, du), w4)"
proof -
  from assms have k: "k = 5 \<or> k = 6 \<or> k = 7 \<or> k = 8 \<or> k = 9 \<or> k = 10"
    by (simp add: principalBefore_def split: if_splits)
  have t5: "\<And>config ex w'. through5 rt lm flagsIp w = (Inr (config, ex, du), w')
              \<Longrightarrow> ?thesis"
    using through5_origin by blast
  have t6: "\<And>config ex img w'. through6 rt lm flagsIp w = (Inr (config, ex, du, img), w')
              \<Longrightarrow> ?thesis"
    using through6_origin t5 by blast
  have t7: "\<And>config ex img w'. through7 rt lm flagsIp w = (Inr (config, ex, du, img), w')
              \<Longrightarrow> ?thesis"
    using through7_origin t6 by blast
  have t8: "\<And>config ex img tok w'.
              through8 rt lm flagsIp w = (Inr (config, ex, du, img, tok), w') \<Longrightarrow> ?thesis"
    using through8_origin t7 by blast
  have t9: "\<And>config ex img tok w'.
              through9 rt lm flagsIp w = (Inr (config, ex, du, img, tok), w') \<Longrightarrow> ?thesis"
    using through9_origin t8 by blast
  from k show ?thesis
  proof (elim disjE)
    assume "k = 5"
    with assms show ?thesis
      by (auto simp: principalBefore_def split: prod.splits sum.splits)
  next
    assume "k = 6"
    with assms obtain config ex w' where "through5 rt lm flagsIp w = (Inr (config, ex, du), w')"
      by (auto simp: principalBefore_def split: prod.splits sum.splits)
    then show ?thesis by (rule t5)
  next
    assume "k = 7"
    with assms obtain config ex img w'
      where "through6 rt lm flagsIp w = (Inr (config, ex, du, img), w')"
      by (auto simp: principalBefore_def split: prod.splits sum.splits)
    then show ?thesis by (rule t6)
  next
    assume "k = 8"
    with assms obtain config ex img w'
      where "through7 rt lm flagsIp w = (Inr (config, ex, du, img), w')"
      by (auto simp: principalBefore_def split: prod.splits sum.splits)
    then show ?thesis by (rule t7)
  next
    assume "k = 9"
    with assms obtain config ex img tok w'
      where "through8 rt lm flagsIp w = (Inr (config, ex, du, img, tok), w')"
      by (auto simp: principalBefore_def split: prod.splits sum.splits)
    then show ?thesis by (rule t8)
  next
    assume "k = 10"
    with assms obtain config ex img tok w'
      where "through9 rt lm flagsIp w = (Inr (config, ex, du, img, tok), w')"
      by (auto simp: principalBefore_def split: prod.splits sum.splits)
    then show ?thesis by (rule t9)
  qed
qed

text \<open>
  Claim C5. In a run that resumes from the state \<open>s0\<close> (the value of \<^verbatim>\<open>existingState\<close>
  after the resume check) with phase 4 marked complete: \<open>s0\<close> is the state the file on the
  host held when the run began; whenever one of the later phases (\<open>k\<close> from 5 to 10) is
  about to begin, the principal it is given has the username, uid, gid and home of the
  metadata of \<open>s0\<close>; and phase 4 adds to the trace its two log lines and nothing else,
  leaving the host, the replies still to be consumed and the connection as they were: no
  remote command is issued.
\<close>

theorem resumed_principal_read_from_state:
  assumes "existingStateOf rt lm flagsIp w = Some s0" and "isPhaseComplete s0 4"
  shows "persisted rt w = Some s0 \<and>
         (\<forall>k principal. principalBefore k rt lm flagsIp w = Some principal \<longrightarrow>
            username principal = deployUser (metadata s0) \<and>
            uid principal = deployUid (metadata s0) \<and>
            gid principal = deployGid (metadata s0) \<and>
            home principal = deployHome (metadata s0)) \<and>
         (\<forall>w4. worldBefore 4 rt lm flagsIp w = Some w4 \<longrightarrow>
            worldBefore 5 rt lm flagsIp w =
              Some (w4\<lparr>trace := trace w4 @ [LogPhase 4, LogSkip]\<rparr>))"
proof (intro conjI allI impI)
  show "persisted rt w = Some s0" by (rule existingState_persisted [OF assms(1)])
next
  fix k principal
  assume "principalBefore k rt lm flagsIp w = Some principal"
  from principalBefore_origin [OF this] obtain config ex w4
    where t4: "through4 rt lm flagsIp w = (Inr (config, ex, principal), w4)" by blast
  from through4_origin [OF t4] obtain w3
    where t3: "through3 rt lm flagsIp w = (Inr (config, ex), w3)"
      and p4: "phase4 rt config ex w3 = (Inr principal, w4)" by blast
  from through3_existing [OF t3] assms(1) have "ex = Some s0" by simp
  with p4 phase4_skipped [OF assms(2), of rt config w3]
  have p: "principal = userFromState (Some s0)" by simp
  show "username principal = deployUser (metadata s0)" by (simp add: p)
  show "uid principal = deployUid (metadata s0)" by (simp add: p)
  show "gid principal = deployGid (metadata s0)" by (simp add: p)
  show "home principal = deployHome (metadata s0)" by (simp add: p)
next
  fix w4
  assume "worldBefore 4 rt lm flagsIp w = Some w4"
  then have "returned (through3 rt lm flagsIp) w = Some w4" by (simp add: worldBefore_def)
  from returned_Some [OF this] obtain config ex
    where t3: "through3 rt lm flagsIp w = (Inr (config, ex), w4)" by auto
  from through3_existing [OF t3] assms(1) have ex: "ex = Some s0" by simp
  have "through4 rt lm flagsIp w =
        (Inr (config, Some s0, userFromState (Some s0)),
         w4\<lparr>trace := trace w4 @ [LogPhase 4, LogSkip]\<rparr>)"
    using t3 [unfolded ex] phase4_skipped [OF assms(2), of rt config w4]
    by (simp add: through4_def andThen_def ret_def)
  then show "worldBefore 5 rt lm flagsIp w =
             Some (w4\<lparr>trace := trace w4 @ [LogPhase 4, LogSkip]\<rparr>)"
    by (simp add: worldBefore_def returned_def)
qed

theorem resumed_principal_read_from_state_witness:
  "existingStateOf sampleRuntime sampleLocal ''203.0.113.10'' resumedHost = Some sampleState \<and>
   isPhaseComplete sampleState 4 \<and>
   persisted sampleRuntime resumedHost = Some sampleState \<and>
   principalBefore 5 sampleRuntime sampleLocal ''203.0.113.10'' resumedHost \<noteq> None \<and>
   uid (the (principalBefore 5 sampleRuntime sampleLocal ''203.0.113.10'' resumedHost)) = 7 \<and>
   home (the (principalBefore 5 sampleRuntime sampleLocal ''203.0.113.10'' resumedHost)) =
     ''/home/roboclaw''"
proof -
  have h1: "existingStateOf sampleRuntime sampleLocal ''203.0.113.10'' resumedHost =
            Some sampleState"
    by code_simp
  have h2: "isPhaseComplete sampleState 4" by code_simp
  have h3: "principalBefore 5 sampleRuntime sampleLocal ''203.0.113.10'' resumedHost \<noteq> None"
    by code_simp
  have m: "deployUid (metadata sampleState) = 7"
    "deployHome (metadata sampleState) = ''/home/roboclaw''"
    by (simp_all add: sampleState_def)
  from h3 obtain p
    where p: "principalBefore 5 sampleRuntime sampleLocal ''203.0.113.10'' resumedHost = Some p"
    by blast
  from resumed_principal_read_from_state [OF h1 h2] p
  have "persisted sampleRuntime resumedHost = Some sampleState"
    and "uid p = deployUid (metadata sampleState)"
    and "home p = deployHome (metadata sampleState)"
    by blast+
  with h1 h2 h3 p m show ?thesis by simp
qed

section \<open>Plain actions\<close>

lemma plainI:
  "(\<And>w. \<exists>es. trace (snd (m w)) = trace w @ es \<and> (\<forall>e\<in>set es. \<not> isLog e))
   \<Longrightarrow> (\<And>w n. fst (m w) \<noteq> Inl (ProcessExit n)) \<Longrightarrow> plain m"
  by (simp add: plain_def)

lemma plain_trace:
  "plain m \<Longrightarrow> \<exists>es. trace (snd (m w)) = trace w @ es \<and> (\<forall>e\<in>set es. \<not> isLog e)"
  by (simp add: plain_def)

lemma plain_no_exit: "plain m \<Longrightarrow> fst (m w) \<noteq> Inl (ProcessExit n)"
  by (simp add: plain_def)

lemma plain_ret: "plain (ret x)"
  by (simp add: plain_def ret_def)

lemma plain_throw: "plain (throw msg)"
  by (simp add: plain_def throw_def)

lemma plain_if: "(b \<Longrightarrow> plain m) \<Longrightarrow> (\<not> b \<Longrightarrow> plain n) \<Longrightarrow> plain (if b then m else n)"
  by simp

lemma plain_andThen:
  assumes "plain m" and "\<And>x. plain (f x)"
  shows "plain (andThen m f)"
proof (rule plainI)
  fix w
  obtain r w1 where mw: "m w = (r, w1)" by (cases "m w")
  from plain_trace [OF assms(1), of w] mw obtain es1
    where t1: "trace w1 = trace w @ es1" and n1: "\<forall>e\<in>set es1. \<not> isLog e" by auto
  show "\<exists>es. trace (snd (andThen m f w)) = trace w @ es \<and> (\<forall>e\<in>set es. \<not> isLog e)"
  proof (cases r)
    case (Inl e)
    with mw t1 n1 show ?thesis by (auto simp: andThen_def)
  next
    case (Inr x)
    from plain_trace [OF assms(2), of x w1] obtain es2
      where t2: "trace (snd (f x w1)) = trace w1 @ es2" and n2: "\<forall>e\<in>set es2. \<not> isLog e"
      by auto
    from t1 t2 have "trace (snd (f x w1)) = trace w @ (es1 @ es2)" by simp
    moreover from n1 n2 have "\<forall>e\<in>set (es1 @ es2). \<not> isLog e" by auto
    ultimately show ?thesis using mw Inr unfolding andThen_def by (simp only: prod.case sum.case) blast
  qed
next
  fix w n
  obtain r w1 where mw: "m w = (r, w1)" by (cases "m w")
  show "fst (andThen m f w) \<noteq> Inl (ProcessExit n)"
  proof (cases r)
    case (Inl e)
    with mw plain_no_exit [OF assms(1), of w n] show ?thesis by (simp add: andThen_def)
  next
    case (Inr x)
    with mw plain_no_exit [OF assms(2), of x w1 n] show ?thesis by (simp add: andThen_def)
  qed
qed

lemma plain_tryCatch:
  assumes "plain m" and "\<And>e. plain (h e)"
  shows "plain (tryCatch m h)"
proof (rule plainI)
  fix w
  obtain r w1 where mw: "m w = (r, w1)" by (cases "m w")
  from plain_trace [OF assms(1), of w] mw obtain es1
    where t1: "trace w1 = trace w @ es1" and n1: "\<forall>e\<in>set es1. \<not> isLog e" by auto
  show "\<exists>es. trace (snd (tryCatch m h w)) = trace w @ es \<and> (\<forall>e\<in>set es. \<not> isLog e)"
  proof (cases r)
    case (Inr x)
    with mw t1 n1 show ?thesis by (auto simp: tryCatch_def)
  next
    case (Inl e)
    show ?thesis
    proof (cases e)
      case (ProcessExit k)
      with Inl mw t1 n1 show ?thesis by (auto simp: tryCatch_def)
    next
      case (Error msg)
      from plain_trace [OF assms(2), of "Error msg" w1] obtain es2
        where t2: "trace (snd (h (Error msg) w1)) = trace w1 @ es2"
          and n2: "\<forall>e\<in>set es2. \<not> isLog e"
        by auto
      from t1 t2 have "trace (snd (h (Error msg) w1)) = trace w @ (es1 @ es2)" by simp
      moreover from n1 n2 have "\<forall>e\<in>set (es1 @ es2). \<not> isLog e" by auto
      ultimately show ?thesis using mw Inl Error unfolding tryCatch_def
        by (simp only: prod.case sum.case error.case) blast
    qed
  qed
next
  fix w n
  obtain r w1 where mw: "m w = (r, w1)" by (cases "m w")
  show "fst (tryCatch m h w) \<noteq> Inl (ProcessExit n)"
  proof (cases r)
    case (Inr x)
    with mw show ?thesis by (simp add: tryCatch_def)
  next
    case (Inl e)
    show ?thesis
    proof (cases e)
      case (ProcessExit k)
      with Inl mw plain_no_exit [OF assms(1), of w k] show ?thesis by simp
    next
      case (Error msg)
      with Inl mw plain_no_exit [OF assms(2), of "Error msg" w1 n] show ?thesis
        by (simp add: tryCatch_def)
    qed
  qed
qed

lemma plain_exec: "plain (exec command)"
proof (rule plainI)
  fix w
  show "\<exists>es. trace (snd (exec command w)) = trace w @ es \<and> (\<forall>e\<in>set es. \<not> isLog e)"
    by (cases "connected w") (simp_all add: exec_trace)
next
  fix w n
  show "fst (exec command w) \<noteq> Inl (ProcessExit n)" by (rule exec_never_exits)
qed

lemma plain_execStream: "plain (execStream command)"
proof (rule plainI)
  fix w
  show "\<exists>es. trace (snd (execStream command w)) = trace w @ es \<and> (\<forall>e\<in>set es. \<not> isLog e)"
    by (cases "connected w") (simp_all add: execStream_world hostExec_trace)
next
  fix w n
  show "fst (execStream command w) \<noteq> Inl (ProcessExit n)"
    by (simp add: execStream_def split: prod.splits reply.splits)
qed

lemma plain_uploadContent: "plain (uploadContent content remotePath)"
proof (rule plainI)
  fix w :: world
  let ?w1 = "w\<lparr>trace := trace w @ [UploadContent content remotePath]\<rparr>"
  obtain r w' where n: "nextReply ?w1 = (r, w')" by (cases "nextReply ?w1")
  from nextReply_keeps(3) [of ?w1] n
  have t: "trace w' = trace w @ [UploadContent content remotePath]" by simp
  show "\<exists>es. trace (snd (uploadContent content remotePath w)) = trace w @ es \<and>
             (\<forall>e\<in>set es. \<not> isLog e)"
    using n t by (cases "connected w"; cases r) (simp_all add: uploadContent_world)
next
  fix w n
  show "fst (uploadContent content remotePath w) \<noteq> Inl (ProcessExit n)"
    by (simp add: uploadContent_def split: prod.splits reply.splits)
qed

lemma plain_execInteractive: "plain (execInteractive command)"
proof (rule plainI)
  fix w
  show "\<exists>es. trace (snd (execInteractive command w)) = trace w @ es \<and>
             (\<forall>e\<in>set es. \<not> isLog e)"
    by (cases "connected w") (simp_all add: execInteractive_world)
next
  fix w n
  show "fst (execInteractive command w) \<noteq> Inl (ProcessExit n)"
    by (simp add: execInteractive_def split: prod.splits reply.splits)
qed

lemmas plain_rules =
  plain_andThen plain_tryCatch plain_if plain_ret plain_throw
  plain_exec plain_execStream plain_uploadContent plain_execInteractive

lemma plain_case_option:
  "plain a \<Longrightarrow> (\<And>y. plain (b y)) \<Longrightarrow> plain (case x of None \<Rightarrow> a | Some y \<Rightarrow> b y)"
  by (cases x) simp_all

lemma waitForListening_trace:
  "\<exists>es. trace (snd (waitForListening logsCmd waited w)) = trace w @ es \<and>
        (\<forall>e\<in>set es. \<not> isLog e)"
proof (induction logsCmd waited w rule: waitForListening.induct)
  case (1 logsCmd waited w)
  show ?case
  proof (cases "waited < 30")
    case False
    then show ?thesis by (simp add: waitForListening.simps [of logsCmd waited w])
  next
    case True
    obtain r w1 where e: "exec logsCmd w = (r, w1)" by (cases "exec logsCmd w")
    from plain_trace [OF plain_exec, of logsCmd w] e obtain es1
      where t1: "trace w1 = trace w @ es1" and n1: "\<forall>e\<in>set es1. \<not> isLog e" by auto
    show ?thesis
    proof (cases r)
      case (Inl err)
      with True e t1 n1 show ?thesis
        by (auto simp: waitForListening.simps [of logsCmd waited w])
    next
      case (Inr res)
      show ?thesis
      proof (cases "exitCode res = 0")
        case True
        with \<open>waited < 30\<close> Inr e t1 n1 show ?thesis
          by (auto simp: waitForListening.simps [of logsCmd waited w])
      next
        case False
        from "1.IH" [OF \<open>waited < 30\<close> e [symmetric] Inr False] obtain es2
          where t2: "trace (snd (waitForListening logsCmd (waited + 2) w1)) = trace w1 @ es2"
            and n2: "\<forall>e\<in>set es2. \<not> isLog e" by auto
        from t1 t2 have "trace (snd (waitForListening logsCmd (waited + 2) w1)) =
                         trace w @ (es1 @ es2)" by simp
        moreover from n1 n2 have "\<forall>e\<in>set (es1 @ es2). \<not> isLog e" by auto
        moreover have "waitForListening logsCmd waited w =
                       waitForListening logsCmd (waited + 2) w1"
          using \<open>waited < 30\<close> Inr e False
          by (simp add: waitForListening.simps [of logsCmd waited w])
        ultimately show ?thesis by (simp only:) blast
      qed
    qed
  qed
qed

lemma waitForListening_no_exit:
  "fst (waitForListening logsCmd waited w) \<noteq> Inl (ProcessExit n)"
proof (induction logsCmd waited w rule: waitForListening.induct)
  case (1 logsCmd waited w)
  show ?case
  proof (cases "waited < 30")
    case False
    then show ?thesis by (simp add: waitForListening.simps [of logsCmd waited w])
  next
    case True
    obtain r w1 where e: "exec logsCmd w = (r, w1)" by (cases "exec logsCmd w")
    show ?thesis
    proof (cases r)
      case (Inl err)
      with True e exec_never_exits [of logsCmd w n] show ?thesis
        by (simp add: waitForListening.simps [of logsCmd waited w])
    next
      case (Inr res)
      show ?thesis
      proof (cases "exitCode res = 0")
        case True
        with \<open>waited < 30\<close> Inr e show ?thesis
          by (simp add: waitForListening.simps [of logsCmd waited w])
      next
        case False
        from "1.IH" [OF \<open>waited < 30\<close> e [symmetric] Inr False]
        show ?thesis
          using \<open>waited < 30\<close> Inr e False
          by (simp add: waitForListening.simps [of logsCmd waited w])
      qed
    qed
  qed
qed

lemma plain_waitForListening: "plain (waitForListening logsCmd waited)"
  by (rule plainI) (rule waitForListening_trace, rule waitForListening_no_exit)

lemma connectLoop_trace:
  "\<exists>es. trace (snd (connectLoop attempt w)) = trace w @ es \<and> (\<forall>e\<in>set es. \<not> isLog e)"
proof (induction attempt w rule: connectLoop.induct)
  case (1 attempt w)
  let ?w1 = "w\<lparr>trace := trace w @ [ConnectAttempt attempt]\<rparr>"
  obtain r w2 where n: "nextReply ?w1 = (r, w2)" by (cases "nextReply ?w1")
  from nextReply_keeps(3) [of ?w1] n have t: "trace w2 = trace w @ [ConnectAttempt attempt]"
    by simp
  show ?case
  proof (cases "attempt \<le> 3")
    case False
    then show ?thesis unfolding connectLoop.simps [of attempt w] by simp
  next
    case True
    show ?thesis
    proof (cases r)
      case Rejects
      show ?thesis
      proof (cases "attempt = 3")
        case True
        with \<open>attempt \<le> 3\<close> n Rejects t show ?thesis
          unfolding connectLoop.simps [of attempt w] by simp
      next
        case False
        from "1.IH" [OF \<open>attempt \<le> 3\<close> n [symmetric] Rejects False] obtain es2
          where t2: "trace (snd (connectLoop (attempt + 1) w2)) = trace w2 @ es2"
            and n2: "\<forall>e\<in>set es2. \<not> isLog e" by auto
        from t t2 have "trace (snd (connectLoop (attempt + 1) w2)) =
                        trace w @ (ConnectAttempt attempt # es2)" by simp
        moreover from n2 have "\<forall>e\<in>set (ConnectAttempt attempt # es2). \<not> isLog e" by simp
        moreover have "connectLoop attempt w = connectLoop (attempt + 1) w2"
          using \<open>attempt \<le> 3\<close> n Rejects False
          unfolding connectLoop.simps [of attempt w] by simp
        ultimately show ?thesis by (simp only:) blast
      qed
    next
      case (Reply code out err)
      with True n t show ?thesis
        unfolding connectLoop.simps [of attempt w] by simp
    qed
  qed
qed

lemma connectLoop_no_exit: "fst (connectLoop attempt w) \<noteq> Inl (ProcessExit n)"
proof (induction attempt w rule: connectLoop.induct)
  case (1 attempt w)
  let ?w1 = "w\<lparr>trace := trace w @ [ConnectAttempt attempt]\<rparr>"
  obtain r w2 where n: "nextReply ?w1 = (r, w2)" by (cases "nextReply ?w1")
  show ?case
  proof (cases "attempt \<le> 3")
    case False
    then show ?thesis unfolding connectLoop.simps [of attempt w] by simp
  next
    case True
    show ?thesis
    proof (cases r)
      case Rejects
      show ?thesis
      proof (cases "attempt = 3")
        case True
        with \<open>attempt \<le> 3\<close> n Rejects show ?thesis
          unfolding connectLoop.simps [of attempt w] by simp
      next
        case False
        from "1.IH" [OF \<open>attempt \<le> 3\<close> n [symmetric] Rejects False]
        show ?thesis
          using \<open>attempt \<le> 3\<close> n Rejects False
          unfolding connectLoop.simps [of attempt w] by simp
      qed
    next
      case (Reply code out err)
      with True n show ?thesis
        unfolding connectLoop.simps [of attempt w] by simp
    qed
  qed
qed

lemma plain_connect: "plain connect"
proof (rule plainI)
  fix w
  show "\<exists>es. trace (snd (connect w)) = trace w @ es \<and> (\<forall>e\<in>set es. \<not> isLog e)"
    using connectLoop_trace [of 1 w] by (simp add: connect_def)
next
  fix w n
  show "fst (connect w) \<noteq> Inl (ProcessExit n)"
    using connectLoop_no_exit [of 1 w n] by (simp add: connect_def)
qed

lemma plain_loadState: "plain (loadState rt)"
  unfolding loadState_def parseState_def
  by (intro plain_rules plain_case_option)

lemma plain_createState: "plain (createState rt name meta)"
  unfolding createState_def Let_def by (rule plain_uploadContent)

lemma plain_updateState: "plain (updateState rt n status)"
  unfolding updateState_def Let_def
  by (intro plain_rules plain_case_option plain_loadState)

lemma plain_deleteState: "plain deleteState"
  unfolding deleteState_def by (intro plain_rules)

lemma plain_detectPartialDeployment: "plain (detectPartialDeployment rt)"
  unfolding detectPartialDeployment_def Let_def
  by (intro plain_rules plain_case_option plain_loadState)

lemma plain_installBasePackages: "plain installBasePackages"
  unfolding installBasePackages_def by (intro plain_rules)

lemma plain_installDocker: "plain installDocker"
  unfolding installDocker_def by (intro plain_rules)

lemma plain_getUserInfo: "plain (getUserInfo name)"
  unfolding getUserInfo_def Let_def
  by (intro plain_rules) (auto split: option.splits intro: plain_rules)

lemma plain_createDeploymentUser: "plain createDeploymentUser"
  unfolding createDeploymentUser_def Let_def
  by (intro plain_rules plain_getUserInfo)

lemma plain_createDirectories: "plain (createDirectories userInfo)"
  unfolding createDirectories_def by (intro plain_rules)

lemma plain_checkImageExists: "plain (checkImageExists imageName)"
  unfolding checkImageExists_def by (intro plain_rules)

lemma plain_checkRepoExists: "plain (checkRepoExists repoPath)"
  unfolding checkRepoExists_def by (intro plain_rules)

lemma plain_verifyImage: "plain (verifyImage imageName u g)"
  unfolding verifyImage_def Let_def by (intro plain_rules)

lemma plain_rebuildImage: "plain (rebuildImage userInfo br imageName)"
  unfolding rebuildImage_def Let_def
  by (intro plain_rules plain_checkImageExists plain_checkRepoExists plain_verifyImage)

lemma plain_buildImage: "plain (buildImage userInfo br)"
  unfolding buildImage_def Let_def
  by (intro plain_rules plain_checkImageExists plain_verifyImage plain_rebuildImage)

lemma plain_uploadComposeFiles: "plain (uploadComposeFiles rt userInfo imageName)"
  unfolding uploadComposeFiles_def Let_def by (intro plain_rules)

lemma plain_checkOnboardingComplete: "plain (checkOnboardingComplete h)"
  unfolding checkOnboardingComplete_def by (intro plain_rules)

lemma plain_runOnboarding: "plain (runOnboarding userInfo skip)"
  unfolding runOnboarding_def Let_def
  by (intro plain_rules plain_checkOnboardingComplete)

lemma plain_extractGatewayToken: "plain (extractGatewayToken rt userInfo)"
  unfolding extractGatewayToken_def Let_def
  by (intro plain_rules) (auto split: option.splits intro: plain_rules)

lemma plain_updateEnvToken: "plain (updateEnvToken userInfo token)"
  unfolding updateEnvToken_def Let_def by (intro plain_rules)

lemma plain_startGateway: "plain (startGateway userInfo)"
  unfolding startGateway_def Let_def
  by (intro plain_rules plain_waitForListening)

lemma plain_loadConfig: "plain (loadConfig lm)"
  unfolding loadConfig_def by (intro plain_rules plain_case_option)

lemma plain_validateSSHKey: "plain (validateSSHKey lm)"
  unfolding validateSSHKey_def by (intro plain_rules)

lemma plain_readKeyFile: "plain (readKeyFile lm)"
  unfolding readKeyFile_def by (intro plain_rules)

lemma plain_createInstanceArtifact: "plain (createInstanceArtifact lm)"
  unfolding createInstanceArtifact_def by (intro plain_rules)

lemma plain_verifyRootAccess: "plain verifyRootAccess"
  unfolding verifyRootAccess_def by (intro plain_rules)

lemma plain_cleanDeployment: "plain cleanDeployment"
  unfolding cleanDeployment_def by (intro plain_rules)

lemma plain_resumeCheck: "plain (resumeCheck rt config)"
  unfolding resumeCheck_def
  by (intro plain_rules plain_detectPartialDeployment plain_deleteState)

lemma plain_getPendingRequests: "plain (getPendingRequests userInfo)"
  unfolding getPendingRequests_def by (intro plain_rules)

lemma plain_approveDevice: "plain (approveDevice userInfo rid)"
  unfolding approveDevice_def by (intro plain_rules)

lemma waitLoop_trace:
  "\<exists>es. trace (snd (waitLoop userInfo ids timeoutMs elapsed w)) = trace w @ es \<and>
        (\<forall>e\<in>set es. \<not> isLog e)"
proof (induction userInfo ids timeoutMs elapsed w rule: waitLoop.induct)
  case (1 userInfo ids timeoutMs elapsed w)
  show ?case
  proof (cases "elapsed < timeoutMs")
    case False
    then show ?thesis by (simp add: waitLoop.simps [of userInfo ids timeoutMs elapsed w])
  next
    case True
    obtain r w1 where g: "getPendingRequests userInfo w = (r, w1)"
      by (cases "getPendingRequests userInfo w")
    from plain_trace [OF plain_getPendingRequests, of userInfo w] g obtain es1
      where t1: "trace w1 = trace w @ es1" and n1: "\<forall>e\<in>set es1. \<not> isLog e" by auto
    show ?thesis
    proof (cases r)
      case (Inl err)
      with True g t1 n1 show ?thesis
        by (auto simp: waitLoop.simps [of userInfo ids timeoutMs elapsed w])
    next
      case (Inr requests)
      show ?thesis
      proof (cases "find (\<lambda>req. requestId req \<notin> set ids) requests")
        case (Some req)
        with True Inr g t1 n1 show ?thesis
          by (auto simp: waitLoop.simps [of userInfo ids timeoutMs elapsed w])
      next
        case None
        from "1.IH" [OF True g [symmetric] Inr None] obtain es2
          where t2: "trace (snd (waitLoop userInfo ids timeoutMs (elapsed + 2000) w1)) =
                     trace w1 @ es2"
            and n2: "\<forall>e\<in>set es2. \<not> isLog e" by auto
        from t1 t2 have "trace (snd (waitLoop userInfo ids timeoutMs (elapsed + 2000) w1)) =
                         trace w @ (es1 @ es2)" by simp
        moreover from n1 n2 have "\<forall>e\<in>set (es1 @ es2). \<not> isLog e" by auto
        moreover have "waitLoop userInfo ids timeoutMs elapsed w =
                       waitLoop userInfo ids timeoutMs (elapsed + 2000) w1"
          using True Inr g None
          by (simp add: waitLoop.simps [of userInfo ids timeoutMs elapsed w])
        ultimately show ?thesis by (simp only:) blast
      qed
    qed
  qed
qed

lemma waitLoop_no_exit:
  "fst (waitLoop userInfo ids timeoutMs elapsed w) \<noteq> Inl (ProcessExit n)"
proof (induction userInfo ids timeoutMs elapsed w rule: waitLoop.induct)
  case (1 userInfo ids timeoutMs elapsed w)
  show ?case
  proof (cases "elapsed < timeoutMs")
    case False
    then show ?thesis by (simp add: waitLoop.simps [of userInfo ids timeoutMs elapsed w])
  next
    case True
    obtain r w1 where g: "getPendingRequests userInfo w = (r, w1)"
      by (cases "getPendingRequests userInfo w")
    show ?thesis
    proof (cases r)
      case (Inl err)
      with True g plain_no_exit [OF plain_getPendingRequests, of userInfo w n] show ?thesis
        by (simp add: waitLoop.simps [of userInfo ids timeoutMs elapsed w])
    next
      case (Inr requests)
      show ?thesis
      proof (cases "find (\<lambda>req. requestId req \<notin> set ids) requests")
        case (Some req)
        with True Inr g show ?thesis
          by (simp add: waitLoop.simps [of userInfo ids timeoutMs elapsed w])
      next
        case None
        from "1.IH" [OF True g [symmetric] Inr None]
        show ?thesis
          using True Inr g None
          by (simp add: waitLoop.simps [of userInfo ids timeoutMs elapsed w])
      qed
    qed
  qed
qed

lemma plain_autoConnect: "plain (autoConnect lm userInfo)"
proof -
  have w: "\<And>ids. plain (waitForNewPairingRequest userInfo ids 60000)"
    unfolding waitForNewPairingRequest_def
    by (rule plainI) (rule waitLoop_trace, rule waitLoop_no_exit)
  show ?thesis
    unfolding autoConnect_def Let_def
    by (intro plain_rules plain_case_option plain_getPendingRequests plain_approveDevice w)
qed

section \<open>Claim C2: a failing phase is not marked failed\<close>

text \<open>
  C2 does not hold of the code. On a fresh host where the creation of the directories
  (phase 5) exits with status 1, \<^verbatim>\<open>deployCommand\<close> exits with status 1, no later phase is
  started, and the state file left on the host still records phase 5 as pending: the
  \<^verbatim>\<open>catch\<close> block never calls \<^verbatim>\<open>updateState\<close>.
\<close>

theorem failed_phase_left_pending:
  "report sampleRuntime
     (deployCommand sampleRuntime sampleLocal ''203.0.113.10'' (hostWith None directoryFailure)) =
   (Exit 1,
    [(1, False), (2, False), (3, False), (4, False), (5, False)],
    Some [(1, pending), (2, pending), (3, pending), (4, complete), (5, pending),
          (6, pending), (7, pending), (8, pending), (9, pending), (10, pending)])"
  by code_simp

section \<open>Claim C3: one exit status for every failure\<close>

lemma exitsWithinI:
  "(\<And>w n. fst (m w) = Inl (ProcessExit n) \<Longrightarrow> n \<in> S) \<Longrightarrow> exitsWithin S m"
  by (simp add: exitsWithin_def)

lemma exitsWithinD: "exitsWithin S m \<Longrightarrow> fst (m w) = Inl (ProcessExit n) \<Longrightarrow> n \<in> S"
  by (simp add: exitsWithin_def)

lemma exits_plain: "plain m \<Longrightarrow> exitsWithin S m"
  by (simp add: exitsWithin_def plain_def)

lemma exits_logEvent: "exitsWithin S (logEvent e)"
  by (simp add: exitsWithin_def logEvent_def)

lemma exits_processExit: "n \<in> S \<Longrightarrow> exitsWithin S (processExit n)"
  by (simp add: exitsWithin_def processExit_def)

lemma exits_if:
  "(b \<Longrightarrow> exitsWithin S m) \<Longrightarrow> (\<not> b \<Longrightarrow> exitsWithin S n) \<Longrightarrow> exitsWithin S (if b then m else n)"
  by simp

lemma exits_andThen:
  assumes "exitsWithin S m" and "\<And>x. exitsWithin S (f x)"
  shows "exitsWithin S (andThen m f)"
proof (rule exitsWithinI)
  fix w n
  assume a: "fst (andThen m f w) = Inl (ProcessExit n)"
  obtain r w1 where mw: "m w = (r, w1)" by (cases "m w")
  show "n \<in> S"
  proof (cases r)
    case (Inl e)
    with mw a have "fst (m w) = Inl (ProcessExit n)" by (simp add: andThen_def)
    from exitsWithinD [OF assms(1) this] show ?thesis .
  next
    case (Inr x)
    with mw a have "fst (f x w1) = Inl (ProcessExit n)" by (simp add: andThen_def)
    from exitsWithinD [OF assms(2) this] show ?thesis .
  qed
qed

lemma exits_tryCatch:
  assumes "exitsWithin S m" and "\<And>e. exitsWithin S (h e)"
  shows "exitsWithin S (tryCatch m h)"
proof (rule exitsWithinI)
  fix w n
  assume a: "fst (tryCatch m h w) = Inl (ProcessExit n)"
  obtain r w1 where mw: "m w = (r, w1)" by (cases "m w")
  show "n \<in> S"
  proof (cases r)
    case (Inr x)
    with mw a show ?thesis by (simp add: tryCatch_def)
  next
    case (Inl e)
    show ?thesis
    proof (cases e)
      case (ProcessExit k)
      with Inl mw a have "fst (m w) = Inl (ProcessExit n)" by (simp add: tryCatch_def)
      from exitsWithinD [OF assms(1) this] show ?thesis .
    next
      case (Error msg)
      with Inl mw a have "fst (h (Error msg) w1) = Inl (ProcessExit n)"
        by (simp add: tryCatch_def)
      from exitsWithinD [OF assms(2) this] show ?thesis .
    qed
  qed
qed

lemma exits_case_prod:
  "(\<And>a b. exitsWithin S (f a b)) \<Longrightarrow> exitsWithin S (case x of (a, b) \<Rightarrow> f a b)"
  by (cases x) simp

lemma exits_case_option:
  "exitsWithin S a \<Longrightarrow> (\<And>y. exitsWithin S (b y)) \<Longrightarrow>
   exitsWithin S (case x of None \<Rightarrow> a | Some y \<Rightarrow> b y)"
  by (cases x) simp_all

lemmas exits_rules =
  exits_andThen exits_tryCatch exits_if exits_case_prod exits_case_option exits_logEvent

lemma exits_skipPhase: "exitsWithin S (skipPhase n)"
  unfolding skipPhase_def by (intro exits_rules)

lemma exits_prelude: "exitsWithin {1, 2} (prelude rt lm flagsIp)"
  unfolding prelude_def
  by (intro exits_rules exits_processExit
      exits_plain [OF plain_loadConfig] exits_plain [OF plain_validateSSHKey]
      exits_plain [OF plain_readKeyFile] exits_plain [OF plain_connect]
      exits_plain [OF plain_verifyRootAccess] exits_plain [OF plain_cleanDeployment]
      exits_plain [OF plain_resumeCheck] exits_plain [OF plain_ret])
    simp_all

lemma exits_phase2: "exitsWithin S (phase2 rt ex)"
  unfolding phase2_def
  by (intro exits_rules exits_skipPhase exits_plain [OF plain_installBasePackages]
      exits_plain [OF plain_updateState] exits_plain [OF plain_ret])

lemma exits_phase3: "exitsWithin S (phase3 rt ex)"
  unfolding phase3_def
  by (intro exits_rules exits_skipPhase exits_plain [OF plain_installDocker]
      exits_plain [OF plain_updateState] exits_plain [OF plain_ret])

lemma exits_phase4: "exitsWithin S (phase4 rt config ex)"
  unfolding phase4_def
  by (intro exits_rules exits_skipPhase exits_plain [OF plain_createDeploymentUser]
      exits_plain [OF plain_createState] exits_plain [OF plain_updateState]
      exits_plain [OF plain_ret])

lemma exits_phase5: "exitsWithin S (phase5 rt ex du)"
  unfolding phase5_def
  by (intro exits_rules exits_skipPhase exits_plain [OF plain_createDirectories]
      exits_plain [OF plain_updateState])

lemma exits_phase6: "exitsWithin S (phase6 rt config ex du)"
  unfolding phase6_def
  by (intro exits_rules exits_skipPhase exits_plain [OF plain_buildImage]
      exits_plain [OF plain_updateState] exits_plain [OF plain_ret])

lemma exits_phase7: "exitsWithin S (phase7 rt ex du img)"
  unfolding phase7_def
  by (intro exits_rules exits_skipPhase exits_plain [OF plain_uploadComposeFiles]
      exits_plain [OF plain_updateState])

lemma exits_phase8: "exitsWithin S (phase8 rt config ex du)"
  unfolding phase8_def
  by (intro exits_rules exits_skipPhase exits_plain [OF plain_runOnboarding]
      exits_plain [OF plain_extractGatewayToken] exits_plain [OF plain_exec]
      exits_plain [OF plain_updateEnvToken] exits_plain [OF plain_startGateway]
      exits_plain [OF plain_updateState] exits_plain [OF plain_ret])

lemma exits_deployBody: "exitsWithin {1, 2} (deployBody rt lm flagsIp)"
  unfolding deployBody_def through9_def through8_def through7_def through6_def through5_def
    through4_def through3_def through2_def
  by (intro exits_rules exits_prelude exits_phase2 exits_phase3 exits_phase4 exits_phase5
      exits_phase6 exits_phase7 exits_phase8 exits_plain [OF plain_ret]
      exits_plain [OF plain_createInstanceArtifact] exits_plain [OF plain_deleteState]
      exits_plain [OF plain_autoConnect])

text \<open>
  C3 does not hold of the code. Whatever the host answers and whatever the local machine
  is, \<^verbatim>\<open>deployCommand\<close> returns or exits with status 1 or 2: there are two exit statuses
  for the eleven classes of failure.
\<close>

theorem exit_status_is_1_or_2:
  "fst (deployCommand rt lm flagsIp w) = Returned \<or>
   fst (deployCommand rt lm flagsIp w) = Exit 1 \<or>
   fst (deployCommand rt lm flagsIp w) = Exit 2"
proof -
  obtain r w' where b: "deployBody rt lm flagsIp w = (r, w')"
    by (cases "deployBody rt lm flagsIp w")
  show ?thesis
  proof (cases r)
    case (Inr u)
    with b show ?thesis by (simp add: deployCommand_def)
  next
    case (Inl e)
    show ?thesis
    proof (cases e)
      case (Error msg)
      with Inl b show ?thesis by (simp add: deployCommand_def)
    next
      case (ProcessExit n)
      with Inl b have "fst (deployBody rt lm flagsIp w) = Inl (ProcessExit n)" by simp
      from exitsWithinD [OF exits_deployBody this] have "n = 1 \<or> n = 2" by simp
      with ProcessExit Inl b show ?thesis by (auto simp: deployCommand_def)
    qed
  qed
qed

text \<open>
  C3, on the sample hosts: an invalid address, a refused connection, and a failure of the
  installation of the packages, of Docker, and of the creation of the user all end the
  run with exit status 1, the phase log showing how far each run got; a user that is not
  root ends it with exit status 2.
\<close>

theorem failures_share_exit_status_1:
  "fst (deployCommand sampleRuntime sampleLocal ''not-an-address'' (hostWith None [])) = Exit 1 \<and>
   map (\<lambda>script. report sampleRuntime
          (deployCommand sampleRuntime sampleLocal ''203.0.113.10'' (hostWith None script)))
     [connectionFailure, packageFailure, engineFailure, principalFailure] =
     [(Exit 1, [(1, False)], None),
      (Exit 1, [(1, False), (2, False)], None),
      (Exit 1, [(1, False), (2, False), (3, False)], None),
      (Exit 1, [(1, False), (2, False), (3, False), (4, False)], None)] \<and>
   fst (deployCommand sampleRuntime sampleLocal ''203.0.113.10'' (hostWith None privilegeFailure)) =
     Exit 2"
  by code_simp

section \<open>Claim C4: which phases a run skips\<close>

lemma phaseLog_requests: "(\<forall>e\<in>set es. \<not> isLog e) \<Longrightarrow> phaseLog es = []"
  by (induction es rule: phaseLog.induct) simp_all

lemma phaseLog_header:
  "es = [] \<or> hd es \<noteq> LogSkip \<Longrightarrow> phaseLog (LogPhase n # es) = (n, False) # phaseLog es"
  by (cases es; cases "hd es") auto

lemma phaseLog_append:
  "b = [] \<or> hd b \<noteq> LogSkip \<Longrightarrow> phaseLog (a @ b) = phaseLog a @ phaseLog b"
  by (induction a rule: phaseLog.induct) (simp_all add: phaseLog_header)


lemma tidy_start: "tidy ex w w"
  by (simp add: tidy_def skipsAsRecorded_def)

lemma tidy_append:
  assumes "tidy ex w0 w" and "trace w' = trace w @ b" and "b = [] \<or> hd b \<noteq> LogSkip"
    and "\<forall>(n, skipped)\<in>set (phaseLog b).
           skipped = (2 \<le> n \<and> n \<le> 8 \<and> \<not> needsRun ex n)"
  shows "tidy ex w0 w'"
proof -
  from assms(1) obtain es where t: "trace w = trace w0 @ es" and s: "skipsAsRecorded ex es"
    by (auto simp: tidy_def)
  from t assms(2) have "trace w' = trace w0 @ (es @ b)" by simp
  moreover from s assms(4) have "skipsAsRecorded ex (es @ b)"
    by (auto simp: skipsAsRecorded_def phaseLog_append [OF assms(3)])
  ultimately show ?thesis unfolding tidy_def by blast
qed

lemma orderlyI: "(\<And>w. tidy ex w0 w \<Longrightarrow> tidy ex w0 (snd (m w))) \<Longrightarrow> orderly ex w0 m"
  by (simp add: orderly_def)

lemma orderlyD: "orderly ex w0 m \<Longrightarrow> tidy ex w0 w \<Longrightarrow> tidy ex w0 (snd (m w))"
  by (simp add: orderly_def)

lemma orderly_plain:
  assumes "plain m"
  shows "orderly ex w0 m"
proof (rule orderlyI)
  fix w
  assume t: "tidy ex w0 w"
  from plain_trace [OF assms, of w] obtain es
    where e: "trace (snd (m w)) = trace w @ es" and n: "\<forall>e\<in>set es. \<not> isLog e" by auto
  from n have h: "es = [] \<or> hd es \<noteq> LogSkip" by (cases es) auto
  from tidy_append [OF t e h] phaseLog_requests [OF n] show "tidy ex w0 (snd (m w))" by simp
qed

lemma orderly_processExit: "orderly ex w0 (processExit n)"
  by (simp add: orderly_def processExit_def)

lemma orderly_header:
  assumes "\<not> (2 \<le> n \<and> n \<le> 8 \<and> \<not> needsRun ex n)"
  shows "orderly ex w0 (logEvent (LogPhase n))"
proof (rule orderlyI)
  fix w
  assume t: "tidy ex w0 w"
  have e: "trace (snd (logEvent (LogPhase n) w)) = trace w @ [LogPhase n]"
    by (simp add: logEvent_def)
  from tidy_append [OF t e] assms show "tidy ex w0 (snd (logEvent (LogPhase n) w))" by simp
qed

lemma orderly_skipPhase:
  assumes "2 \<le> n" and "n \<le> 8" and "\<not> needsRun ex n"
  shows "orderly ex w0 (skipPhase n)"
proof (rule orderlyI)
  fix w
  assume t: "tidy ex w0 w"
  have e: "trace (snd (skipPhase n w)) = trace w @ [LogPhase n, LogSkip]"
    by (simp add: skipPhase_def andThen_def logEvent_def)
  from tidy_append [OF t e] assms show "tidy ex w0 (snd (skipPhase n w))" by simp
qed

lemma orderly_if:
  "(b \<Longrightarrow> orderly ex w0 m) \<Longrightarrow> (\<not> b \<Longrightarrow> orderly ex w0 n) \<Longrightarrow> orderly ex w0 (if b then m else n)"
  by simp

lemma orderly_andThen:
  assumes "orderly ex w0 m" and "\<And>x. orderly ex w0 (f x)"
  shows "orderly ex w0 (andThen m f)"
proof (rule orderlyI)
  fix w
  assume t: "tidy ex w0 w"
  obtain r w1 where mw: "m w = (r, w1)" by (cases "m w")
  from orderlyD [OF assms(1) t] mw have t1: "tidy ex w0 w1" by simp
  show "tidy ex w0 (snd (andThen m f w))"
  proof (cases r)
    case (Inl e)
    with mw t1 show ?thesis by (simp add: andThen_def)
  next
    case (Inr x)
    with mw orderlyD [OF assms(2) t1, of x] show ?thesis by (simp add: andThen_def)
  qed
qed

lemma orderly_tryCatch:
  assumes "orderly ex w0 m" and "\<And>e. orderly ex w0 (h e)"
  shows "orderly ex w0 (tryCatch m h)"
proof (rule orderlyI)
  fix w
  assume t: "tidy ex w0 w"
  obtain r w1 where mw: "m w = (r, w1)" by (cases "m w")
  from orderlyD [OF assms(1) t] mw have t1: "tidy ex w0 w1" by simp
  show "tidy ex w0 (snd (tryCatch m h w))"
  proof (cases r)
    case (Inr x)
    with mw t1 show ?thesis by (simp add: tryCatch_def)
  next
    case (Inl e)
    show ?thesis
    proof (cases e)
      case (ProcessExit k)
      with Inl mw t1 show ?thesis by (simp add: tryCatch_def)
    next
      case (Error msg)
      with Inl mw orderlyD [OF assms(2) t1, of "Error msg"] show ?thesis
        by (simp add: tryCatch_def)
    qed
  qed
qed

lemma orderly_case_option:
  "orderly ex w0 a \<Longrightarrow> (\<And>y. orderly ex w0 (b y)) \<Longrightarrow>
   orderly ex w0 (case x of None \<Rightarrow> a | Some y \<Rightarrow> b y)"
  by (cases x) simp_all

lemmas orderly_rules =
  orderly_andThen orderly_tryCatch orderly_if orderly_case_option orderly_processExit

lemma orderly_prelude: "orderly ex w0 (prelude rt lm flagsIp)"
  unfolding prelude_def
  by (intro orderly_rules orderly_header
      orderly_plain [OF plain_loadConfig] orderly_plain [OF plain_validateSSHKey]
      orderly_plain [OF plain_readKeyFile] orderly_plain [OF plain_connect]
      orderly_plain [OF plain_verifyRootAccess] orderly_plain [OF plain_cleanDeployment]
      orderly_plain [OF plain_resumeCheck] orderly_plain [OF plain_ret])
    simp

lemma orderly_phase2: "orderly ex w0 (phase2 rt ex)"
proof (cases "needsRun ex 2")
  case True
  then show ?thesis
    unfolding phase2_def
    by (simp only: if_True)
      (intro orderly_rules orderly_header orderly_plain [OF plain_installBasePackages]
        orderly_plain [OF plain_updateState] orderly_plain [OF plain_ret], simp)
next
  case False
  then show ?thesis unfolding phase2_def by (simp add: orderly_skipPhase)
qed

lemma orderly_phase3: "orderly ex w0 (phase3 rt ex)"
proof (cases "needsRun ex 3")
  case True
  then show ?thesis
    unfolding phase3_def
    by (simp only: if_True)
      (intro orderly_rules orderly_header orderly_plain [OF plain_installDocker]
        orderly_plain [OF plain_updateState] orderly_plain [OF plain_ret], simp)
next
  case False
  then show ?thesis unfolding phase3_def by (simp add: orderly_skipPhase)
qed

lemma orderly_phase4: "orderly ex w0 (phase4 rt config ex)"
proof (cases "needsRun ex 4")
  case True
  then show ?thesis
    unfolding phase4_def
    by (simp only: if_True)
      (intro orderly_rules orderly_header orderly_plain [OF plain_createDeploymentUser]
        orderly_plain [OF plain_createState] orderly_plain [OF plain_updateState]
        orderly_plain [OF plain_ret], simp)
next
  case False
  then show ?thesis
    unfolding phase4_def
    by (simp only: if_False)
      (intro orderly_rules orderly_skipPhase orderly_plain [OF plain_ret], simp_all)
qed

lemma orderly_phase5: "orderly ex w0 (phase5 rt ex du)"
proof (cases "needsRun ex 5")
  case True
  then show ?thesis
    unfolding phase5_def
    by (simp only: if_True)
      (intro orderly_rules orderly_header orderly_plain [OF plain_createDirectories]
        orderly_plain [OF plain_updateState], simp)
next
  case False
  then show ?thesis unfolding phase5_def by (simp add: orderly_skipPhase)
qed

lemma orderly_phase6: "orderly ex w0 (phase6 rt config ex du)"
proof (cases "needsRun ex 6")
  case True
  then show ?thesis
    unfolding phase6_def
    by (simp only: if_True)
      (intro orderly_rules orderly_header orderly_plain [OF plain_buildImage]
        orderly_plain [OF plain_updateState] orderly_plain [OF plain_ret], simp)
next
  case False
  then show ?thesis
    unfolding phase6_def
    by (simp only: if_False)
      (intro orderly_rules orderly_skipPhase orderly_plain [OF plain_ret], simp_all)
qed

lemma orderly_phase7: "orderly ex w0 (phase7 rt ex du img)"
proof (cases "needsRun ex 7")
  case True
  then show ?thesis
    unfolding phase7_def
    by (simp only: if_True)
      (intro orderly_rules orderly_header orderly_plain [OF plain_uploadComposeFiles]
        orderly_plain [OF plain_updateState], simp)
next
  case False
  then show ?thesis unfolding phase7_def by (simp add: orderly_skipPhase)
qed

lemma orderly_phase8: "orderly ex w0 (phase8 rt config ex du)"
proof (cases "needsRun ex 8")
  case True
  then show ?thesis
    unfolding phase8_def
    by (simp only: if_True)
      (intro orderly_rules orderly_header orderly_plain [OF plain_runOnboarding]
        orderly_plain [OF plain_extractGatewayToken] orderly_plain [OF plain_exec]
        orderly_plain [OF plain_updateEnvToken] orderly_plain [OF plain_startGateway]
        orderly_plain [OF plain_updateState] orderly_plain [OF plain_ret], simp)
next
  case False
  then show ?thesis
    unfolding phase8_def
    by (simp only: if_False)
      (intro orderly_rules orderly_skipPhase orderly_plain [OF plain_extractGatewayToken],
        simp_all)
qed

lemma through2_existing:
  assumes "through2 rt lm flagsIp w = (Inr (config, ex), w')"
  shows "ex = existingStateOf rt lm flagsIp w"
proof -
  from through2_origin [OF assms] obtain w0
    where "prelude rt lm flagsIp w = (Inr (config, ex), w0)" by blast
  then show ?thesis by (simp add: existingStateOf_def)
qed

lemma through4_existing:
  assumes "through4 rt lm flagsIp w = (Inr (config, ex, du), w')"
  shows "ex = existingStateOf rt lm flagsIp w"
  using through4_origin [OF assms] through3_existing by blast

lemma through5_existing:
  assumes "through5 rt lm flagsIp w = (Inr (config, ex, du), w')"
  shows "ex = existingStateOf rt lm flagsIp w"
  using through5_origin [OF assms] through4_existing by blast

lemma through6_existing:
  assumes "through6 rt lm flagsIp w = (Inr (config, ex, du, img), w')"
  shows "ex = existingStateOf rt lm flagsIp w"
  using through6_origin [OF assms] through5_existing by blast

lemma through7_existing:
  assumes "through7 rt lm flagsIp w = (Inr (config, ex, du, img), w')"
  shows "ex = existingStateOf rt lm flagsIp w"
  using through7_origin [OF assms] through6_existing by blast

lemma through8_existing:
  assumes "through8 rt lm flagsIp w = (Inr (config, ex, du, img, tok), w')"
  shows "ex = existingStateOf rt lm flagsIp w"
  using through8_origin [OF assms] through7_existing by blast

lemma through9_existing:
  assumes "through9 rt lm flagsIp w = (Inr (config, ex, du, img, tok), w')"
  shows "ex = existingStateOf rt lm flagsIp w"
  using through9_origin [OF assms] through8_existing by blast

lemma step_tidy:
  assumes "tidy ex w (snd (m w))" and "\<And>x w1. m w = (Inr x, w1) \<Longrightarrow> orderly ex w (k x)"
  shows "tidy ex w (snd (andThen m k w))"
proof -
  obtain r w1 where mw: "m w = (r, w1)" by (cases "m w")
  from assms(1) mw have t1: "tidy ex w w1" by simp
  show ?thesis
  proof (cases r)
    case (Inl e)
    with mw t1 show ?thesis by (simp add: andThen_def)
  next
    case (Inr x)
    from assms(2) [OF mw [unfolded Inr]] have "orderly ex w (k x)" .
    from orderlyD [OF this t1] mw Inr show ?thesis by (simp add: andThen_def)
  qed
qed

lemma prelude_tidy: "tidy ex w (snd (prelude rt lm flagsIp w))"
  by (rule orderlyD [OF orderly_prelude tidy_start])

lemma through2_tidy:
  "tidy (existingStateOf rt lm flagsIp w) w (snd (through2 rt lm flagsIp w))"
  unfolding through2_def
proof (rule step_tidy [OF prelude_tidy])
  fix x w1
  assume p: "prelude rt lm flagsIp w = (Inr x, w1)"
  obtain config ex where x: "x = (config, ex)" by (cases x)
  from p x have e: "existingStateOf rt lm flagsIp w = ex" by (simp add: existingStateOf_def)
  show "orderly (existingStateOf rt lm flagsIp w) w
          (case x of (config, existingState) \<Rightarrow>
             andThen (phase2 rt existingState) (\<lambda>u. ret (config, existingState)))"
    unfolding e x prod.case
    by (intro orderly_andThen orderly_phase2 orderly_plain [OF plain_ret])
qed

lemma through3_tidy:
  "tidy (existingStateOf rt lm flagsIp w) w (snd (through3 rt lm flagsIp w))"
  unfolding through3_def
proof (rule step_tidy [OF through2_tidy])
  fix x w1
  assume p: "through2 rt lm flagsIp w = (Inr x, w1)"
  obtain config ex where x: "x = (config, ex)" by (cases x)
  from through2_existing [OF p [unfolded x]] have e: "existingStateOf rt lm flagsIp w = ex"
    by simp
  show "orderly (existingStateOf rt lm flagsIp w) w
          (case x of (config, existingState) \<Rightarrow>
             andThen (phase3 rt existingState) (\<lambda>u. ret (config, existingState)))"
    unfolding e x prod.case
    by (intro orderly_andThen orderly_phase3 orderly_plain [OF plain_ret])
qed

lemma through4_tidy:
  "tidy (existingStateOf rt lm flagsIp w) w (snd (through4 rt lm flagsIp w))"
  unfolding through4_def
proof (rule step_tidy [OF through3_tidy])
  fix x w1
  assume p: "through3 rt lm flagsIp w = (Inr x, w1)"
  obtain config ex where x: "x = (config, ex)" by (cases x)
  from through3_existing [OF p [unfolded x]] have e: "existingStateOf rt lm flagsIp w = ex"
    by simp
  show "orderly (existingStateOf rt lm flagsIp w) w
          (case x of (config, existingState) \<Rightarrow>
             andThen (phase4 rt config existingState) (\<lambda>deployUser'.
               ret (config, existingState, deployUser')))"
    unfolding e x prod.case
    by (intro orderly_andThen orderly_phase4 orderly_plain [OF plain_ret])
qed

lemma through5_tidy:
  "tidy (existingStateOf rt lm flagsIp w) w (snd (through5 rt lm flagsIp w))"
  unfolding through5_def
proof (rule step_tidy [OF through4_tidy])
  fix x w1
  assume p: "through4 rt lm flagsIp w = (Inr x, w1)"
  obtain config ex du where x: "x = (config, ex, du)" by (cases x)
  from through4_existing [OF p [unfolded x]] have e: "existingStateOf rt lm flagsIp w = ex"
    by simp
  show "orderly (existingStateOf rt lm flagsIp w) w
          (case x of (config, existingState, deployUser') \<Rightarrow>
             andThen (phase5 rt existingState deployUser') (\<lambda>u.
               ret (config, existingState, deployUser')))"
    unfolding e x prod.case
    by (intro orderly_andThen orderly_phase5 orderly_plain [OF plain_ret])
qed

lemma through6_tidy:
  "tidy (existingStateOf rt lm flagsIp w) w (snd (through6 rt lm flagsIp w))"
  unfolding through6_def
proof (rule step_tidy [OF through5_tidy])
  fix x w1
  assume p: "through5 rt lm flagsIp w = (Inr x, w1)"
  obtain config ex du where x: "x = (config, ex, du)" by (cases x)
  from through5_existing [OF p [unfolded x]] have e: "existingStateOf rt lm flagsIp w = ex"
    by simp
  show "orderly (existingStateOf rt lm flagsIp w) w
          (case x of (config, existingState, deployUser') \<Rightarrow>
             andThen (phase6 rt config existingState deployUser') (\<lambda>imageName.
               ret (config, existingState, deployUser', imageName)))"
    unfolding e x prod.case
    by (intro orderly_andThen orderly_phase6 orderly_plain [OF plain_ret])
qed

lemma through7_tidy:
  "tidy (existingStateOf rt lm flagsIp w) w (snd (through7 rt lm flagsIp w))"
  unfolding through7_def
proof (rule step_tidy [OF through6_tidy])
  fix x w1
  assume p: "through6 rt lm flagsIp w = (Inr x, w1)"
  obtain config ex du img where x: "x = (config, ex, du, img)" by (cases x)
  from through6_existing [OF p [unfolded x]] have e: "existingStateOf rt lm flagsIp w = ex"
    by simp
  show "orderly (existingStateOf rt lm flagsIp w) w
          (case x of (config, existingState, deployUser', imageName) \<Rightarrow>
             andThen (phase7 rt existingState deployUser' imageName) (\<lambda>u.
               ret (config, existingState, deployUser', imageName)))"
    unfolding e x prod.case
    by (intro orderly_andThen orderly_phase7 orderly_plain [OF plain_ret])
qed

lemma through8_tidy:
  "tidy (existingStateOf rt lm flagsIp w) w (snd (through8 rt lm flagsIp w))"
  unfolding through8_def
proof (rule step_tidy [OF through7_tidy])
  fix x w1
  assume p: "through7 rt lm flagsIp w = (Inr x, w1)"
  obtain config ex du img where x: "x = (config, ex, du, img)" by (cases x)
  from through7_existing [OF p [unfolded x]] have e: "existingStateOf rt lm flagsIp w = ex"
    by simp
  show "orderly (existingStateOf rt lm flagsIp w) w
          (case x of (config, existingState, deployUser', imageName) \<Rightarrow>
             andThen (phase8 rt config existingState deployUser') (\<lambda>gatewayToken.
               ret (config, existingState, deployUser', imageName, gatewayToken)))"
    unfolding e x prod.case
    by (intro orderly_andThen orderly_phase8 orderly_plain [OF plain_ret])
qed

lemma through9_tidy:
  "tidy (existingStateOf rt lm flagsIp w) w (snd (through9 rt lm flagsIp w))"
  unfolding through9_def
proof (rule step_tidy [OF through8_tidy])
  fix x w1
  assume p: "through8 rt lm flagsIp w = (Inr x, w1)"
  obtain config ex du img tok where x: "x = (config, ex, du, img, tok)" by (cases x)
  show "orderly (existingStateOf rt lm flagsIp w) w
          (case x of (config, existingState, deployUser', imageName, gatewayToken) \<Rightarrow>
             andThen (logEvent (LogPhase 9)) (\<lambda>u1.
             andThen (createInstanceArtifact lm) (\<lambda>u2.
               ret (config, existingState, deployUser', imageName, gatewayToken))))"
    unfolding x prod.case
    by (intro orderly_andThen orderly_header orderly_plain [OF plain_createInstanceArtifact]
        orderly_plain [OF plain_ret]) simp
qed

lemma deployBody_tidy:
  "tidy (existingStateOf rt lm flagsIp w) w (snd (deployBody rt lm flagsIp w))"
  unfolding deployBody_def
proof (rule step_tidy [OF through9_tidy])
  fix x w1
  assume p: "through9 rt lm flagsIp w = (Inr x, w1)"
  obtain config ex du img tok where x: "x = (config, ex, du, img, tok)" by (cases x)
  show "orderly (existingStateOf rt lm flagsIp w) w
          (case x of (config, existingState, deployUser', imageName, gatewayToken) \<Rightarrow>
             andThen (logEvent (LogPhase 10)) (\<lambda>u3.
             andThen deleteState (\<lambda>u4.
               if \<not> noAutoConnect config then autoConnect lm deployUser' else ret ())))"
    unfolding x prod.case
    by (intro orderly_andThen orderly_if orderly_header orderly_plain [OF plain_deleteState]
        orderly_plain [OF plain_autoConnect] orderly_plain [OF plain_ret]) simp
qed

lemma deployCommand_trace:
  "trace (snd (deployCommand rt lm flagsIp w)) = trace (snd (deployBody rt lm flagsIp w))"
  by (simp add: deployCommand_def disconnect_def split: prod.splits sum.splits error.splits)

lemma deployCommand_log:
  "\<forall>(n, skipped)\<in>set (phaseLog (issued w (snd (deployCommand rt lm flagsIp w)))).
     skipped = (2 \<le> n \<and> n \<le> 8 \<and> \<not> needsRun (existingStateOf rt lm flagsIp w) n)"
proof -
  from deployBody_tidy [of rt lm flagsIp w] obtain es
    where t: "trace (snd (deployBody rt lm flagsIp w)) = trace w @ es"
      and s: "skipsAsRecorded (existingStateOf rt lm flagsIp w) es"
    by (auto simp: tidy_def)
  from t have "issued w (snd (deployCommand rt lm flagsIp w)) = es"
    by (simp add: issued_def deployCommand_trace)
  with s show ?thesis by (simp add: skipsAsRecorded_def)
qed

text \<open>The first request of an action stays where it is when more follows.\<close>

lemma starts_then:
  assumes "\<exists>rest. trace (snd (m w)) = trace w @ e # rest" and "\<And>x. plain (f x)"
  shows "\<exists>rest. trace (snd (andThen m f w)) = trace w @ e # rest"
proof -
  from assms(1) obtain rest where t: "trace (snd (m w)) = trace w @ e # rest" by blast
  obtain r w1 where mw: "m w = (r, w1)" by (cases "m w")
  show ?thesis
  proof (cases r)
    case (Inl err)
    with mw t show ?thesis by (simp add: andThen_def)
  next
    case (Inr x)
    from plain_trace [OF assms(2), of x w1] obtain es
      where "trace (snd (f x w1)) = trace w1 @ es" by blast
    with mw t Inr have "trace (snd (andThen m f w)) = trace w @ e # (rest @ es)"
      by (simp add: andThen_def)
    then show ?thesis by blast
  qed
qed

lemma starts_with_exec:
  assumes "connected w" and "\<And>x. plain (k x)"
  shows "\<exists>rest. trace (snd (andThen (exec command) k w)) = trace w @ Exec command # rest"
proof (rule starts_then [OF _ assms(2)])
  from assms(1) have "trace (snd (exec command w)) = trace w @ Exec command # []"
    by (simp add: exec_trace)
  then show "\<exists>rest. trace (snd (exec command w)) = trace w @ Exec command # rest" by blast
qed

lemma starts_with_upload:
  assumes "connected w" and "\<And>x. plain (k x)"
  shows "\<exists>rest. trace (snd (andThen (uploadContent content remotePath) k w)) =
                trace w @ UploadContent content remotePath # rest"
proof (rule starts_then [OF _ assms(2)])
  let ?w1 = "w\<lparr>trace := trace w @ [UploadContent content remotePath]\<rparr>"
  obtain r w' where n: "nextReply ?w1 = (r, w')" by (cases "nextReply ?w1")
  from nextReply_keeps(3) [of ?w1] n
  have t: "trace w' = trace w @ [UploadContent content remotePath]" by simp
  from assms(1) n t
  have "trace (snd (uploadContent content remotePath w)) =
        trace w @ UploadContent content remotePath # []"
    by (cases r) (simp_all add: uploadContent_world)
  then show "\<exists>rest. trace (snd (uploadContent content remotePath w)) =
                   trace w @ UploadContent content remotePath # rest" by blast
qed

lemma after_header:
  assumes "\<And>w1. connected w1 \<Longrightarrow> \<exists>rest. trace (snd (m w1)) = trace w1 @ e # rest"
    and "connected w"
  shows "take 2 (issued w (snd (andThen (logEvent (LogPhase n)) (\<lambda>u. m) w))) = [LogPhase n, e]"
proof -
  let ?w1 = "w\<lparr>trace := trace w @ [LogPhase n]\<rparr>"
  from assms(2) have "connected ?w1" by simp
  from assms(1) [OF this] obtain rest
    where "trace (snd (m ?w1)) = trace w @ LogPhase n # e # rest" by auto
  then show ?thesis by (simp add: andThen_def logEvent_def issued_def)
qed

lemma phase2_starts:
  assumes "needsRun ex 2" and "connected w"
  shows "take 2 (issued w (snd (phase2 rt ex w))) =
         [LogPhase 2, Exec ''command -v curl && command -v wget && command -v git'']"
  unfolding phase2_def if_P [OF assms(1)]
proof (rule after_header [OF _ assms(2)])
  fix w1 :: world
  assume c: "connected w1"
  show "\<exists>rest. trace (snd (andThen installBasePackages
                  (\<lambda>u'. if ex \<noteq> None then updateState rt 2 complete else ret ()) w1)) =
               trace w1 @ Exec ''command -v curl && command -v wget && command -v git'' # rest"
    unfolding installBasePackages_def
    by (intro starts_then starts_with_exec [OF c] plain_rules plain_updateState)
qed

lemma phase3_starts:
  assumes "needsRun ex 3" and "connected w"
  shows "take 2 (issued w (snd (phase3 rt ex w))) =
         [LogPhase 3, Exec ''docker --version && docker compose version'']"
  unfolding phase3_def if_P [OF assms(1)]
proof (rule after_header [OF _ assms(2)])
  fix w1 :: world
  assume c: "connected w1"
  show "\<exists>rest. trace (snd (andThen installDocker
                  (\<lambda>info. if ex \<noteq> None then updateState rt 3 complete else ret ()) w1)) =
               trace w1 @ Exec ''docker --version && docker compose version'' # rest"
    unfolding installDocker_def
    by (intro starts_then starts_with_exec [OF c] plain_rules plain_updateState)
qed

lemma createDeploymentUser_starts:
  assumes "connected w"
  shows "\<exists>rest. trace (snd (createDeploymentUser w)) = trace w @ Exec ''id roboclaw'' # rest"
proof -
  have "\<exists>rest. trace (snd (createDeploymentUser w)) =
               trace w @ Exec (''id '' @ ''roboclaw'') # rest"
    unfolding createDeploymentUser_def Let_def
    by (intro starts_with_exec [OF assms] plain_rules plain_getUserInfo)
  then show ?thesis by simp
qed

lemma phase4_starts:
  assumes "needsRun ex 4" and "connected w"
  shows "take 2 (issued w (snd (phase4 rt config ex w))) = [LogPhase 4, Exec ''id roboclaw'']"
  unfolding phase4_def if_P [OF assms(1)]
  by (rule after_header [OF _ assms(2)])
    (intro starts_then createDeploymentUser_starts plain_rules plain_createState
      plain_updateState)

lemma phase5_starts:
  assumes "needsRun ex 5" and "connected w"
  shows "take 2 (issued w (snd (phase5 rt ex du w))) =
         [LogPhase 5, Exec (CREATE_DIRS_CMD (username du) (home du))]"
  unfolding phase5_def if_P [OF assms(1)]
proof (rule after_header [OF _ assms(2)])
  fix w1 :: world
  assume c: "connected w1"
  show "\<exists>rest. trace (snd (andThen (createDirectories du) (\<lambda>u'. updateState rt 5 complete) w1)) =
               trace w1 @ Exec (CREATE_DIRS_CMD (username du) (home du)) # rest"
    unfolding createDirectories_def
    by (intro starts_then starts_with_exec [OF c] plain_rules plain_updateState)
qed

lemma phase6_starts:
  assumes "needsRun ex 6" and "connected w"
  shows "take 2 (issued w (snd (phase6 rt config ex du w))) =
         [LogPhase 6, Exec (''docker images -q '' @ IMAGE)]"
  unfolding phase6_def if_P [OF assms(1)]
proof (rule after_header [OF _ assms(2)])
  fix w1 :: world
  assume c: "connected w1"
  show "\<exists>rest. trace (snd (andThen (buildImage du (configBranch config))
                  (\<lambda>imageName. andThen (updateState rt 6 complete) (\<lambda>u'. ret imageName)) w1)) =
               trace w1 @ Exec (''docker images -q '' @ IMAGE) # rest"
    unfolding buildImage_def Let_def checkImageExists_def IMAGE_def
    by (intro starts_then starts_with_exec [OF c] plain_rules plain_updateState
        plain_verifyImage plain_rebuildImage)
qed

lemma phase7_starts:
  assumes "needsRun ex 7" and "connected w"
  shows "take 2 (issued w (snd (phase7 rt ex du img w))) =
         [LogPhase 7,
          UploadContent (generateDockerCompose rt) (home du @ ''/docker/docker-compose.yml'')]"
  unfolding phase7_def if_P [OF assms(1)]
proof (rule after_header [OF _ assms(2)])
  fix w1 :: world
  assume c: "connected w1"
  have "\<exists>rest. trace (snd (andThen (uploadComposeFiles rt du img)
                  (\<lambda>u'. updateState rt 7 complete) w1)) =
               trace w1 @ UploadContent (generateDockerCompose rt)
                            ((home du @ ''/docker'') @ ''/docker-compose.yml'') # rest"
    unfolding uploadComposeFiles_def Let_def
    by (intro starts_then starts_with_upload [OF c] plain_rules plain_updateState)
  then show "\<exists>rest. trace (snd (andThen (uploadComposeFiles rt du img)
                  (\<lambda>u'. updateState rt 7 complete) w1)) =
               trace w1 @ UploadContent (generateDockerCompose rt)
                            (home du @ ''/docker/docker-compose.yml'') # rest"
    by simp
qed

lemma phase8_starts:
  assumes "needsRun ex 8" and "connected w"
  shows "take 2 (issued w (snd (phase8 rt config ex du w))) =
         [LogPhase 8, Exec (''test -f '' @ home du @ ''/.openclaw/openclaw.json'')]"
  unfolding phase8_def if_P [OF assms(1)]
proof (rule after_header [OF _ assms(2)])
  fix w1 :: world
  assume c: "connected w1"
  show "\<exists>rest. trace (snd (andThen (runOnboarding du (skipOnboard config))
          (\<lambda>u'. andThen (extractGatewayToken rt du) (\<lambda>gatewayToken.
             andThen
               (case gatewayToken of
                  Some token \<Rightarrow>
                    andThen
                      (exec (''cd '' @ home du @ ''/docker && sudo -u '' @ username du @
                             '' docker compose stop openclaw-gateway 2>/dev/null || true''))
                      (\<lambda>r. andThen (updateEnvToken du token) (\<lambda>u''. startGateway du))
                | None \<Rightarrow> ret ())
               (\<lambda>u''. andThen (updateState rt 8 complete) (\<lambda>u'''. ret gatewayToken)))) w1)) =
               trace w1 @ Exec (''test -f '' @ home du @ ''/.openclaw/openclaw.json'') # rest"
    unfolding runOnboarding_def Let_def checkOnboardingComplete_def
    by (intro starts_then starts_with_exec [OF c] plain_rules plain_updateState
        plain_extractGatewayToken plain_updateEnvToken plain_startGateway plain_case_option)
qed

lemma skipPhase_world: "skipPhase n w = (Inr (), w\<lparr>trace := trace w @ [LogPhase n, LogSkip]\<rparr>)"
  by (simp add: skipPhase_def andThen_def logEvent_def)

text \<open>Every run logs the phases in order, from phase 1 to the last phase it reaches.\<close>

lemma requestingD:
  "requesting m \<Longrightarrow> \<exists>es. trace (snd (m w)) = trace w @ es \<and> (\<forall>e\<in>set es. \<not> isLog e)"
  by (simp add: requesting_def)

lemma requesting_plain: "plain m \<Longrightarrow> requesting m"
  by (simp add: requesting_def plain_def)

lemma requesting_processExit: "requesting (processExit n)"
  by (simp add: requesting_def processExit_def)

lemma requesting_if:
  "(b \<Longrightarrow> requesting m) \<Longrightarrow> (\<not> b \<Longrightarrow> requesting n) \<Longrightarrow> requesting (if b then m else n)"
  by simp

lemma requesting_andThen:
  assumes "requesting m" and "\<And>x. requesting (f x)"
  shows "requesting (andThen m f)"
  unfolding requesting_def
proof
  fix w
  obtain r w1 where mw: "m w = (r, w1)" by (cases "m w")
  from requestingD [OF assms(1), of w] mw obtain es1
    where t1: "trace w1 = trace w @ es1" and n1: "\<forall>e\<in>set es1. \<not> isLog e" by auto
  show "\<exists>es. trace (snd (andThen m f w)) = trace w @ es \<and> (\<forall>e\<in>set es. \<not> isLog e)"
  proof (cases r)
    case (Inl e)
    with mw t1 n1 show ?thesis by (auto simp: andThen_def)
  next
    case (Inr x)
    from requestingD [OF assms(2), of x w1] obtain es2
      where t2: "trace (snd (f x w1)) = trace w1 @ es2" and n2: "\<forall>e\<in>set es2. \<not> isLog e"
      by auto
    from t1 t2 have "trace (snd (f x w1)) = trace w @ (es1 @ es2)" by simp
    moreover from n1 n2 have "\<forall>e\<in>set (es1 @ es2). \<not> isLog e" by auto
    ultimately show ?thesis using mw Inr unfolding andThen_def
      by (simp only: prod.case sum.case) blast
  qed
qed

lemma loggedUpTo_start: "loggedUpTo 0 w w"
  by (simp add: loggedUpTo_def)

lemma loggedUpTo_requests:
  assumes "loggedUpTo k w0 w" and "requesting m"
  shows "loggedUpTo k w0 (snd (m w))"
proof -
  from assms(1) obtain es where t: "trace w = trace w0 @ es"
    and l: "map fst (phaseLog es) = [1..<Suc k]" by (auto simp: loggedUpTo_def)
  from requestingD [OF assms(2), of w] obtain reqs
    where e: "trace (snd (m w)) = trace w @ reqs" and n: "\<forall>e\<in>set reqs. \<not> isLog e" by auto
  from n have h: "reqs = [] \<or> hd reqs \<noteq> LogSkip" by (cases reqs) auto
  from t e have "trace (snd (m w)) = trace w0 @ (es @ reqs)" by simp
  moreover from l have "map fst (phaseLog (es @ reqs)) = [1..<Suc k]"
    by (simp add: phaseLog_append [OF h] phaseLog_requests [OF n])
  ultimately show ?thesis unfolding loggedUpTo_def by blast
qed

lemma loggedUpTo_block:
  assumes "loggedUpTo k w0 w" and "trace w' = trace w @ LogPhase (Suc k) # b"
    and "map fst (phaseLog (LogPhase (Suc k) # b)) = [Suc k]"
  shows "loggedUpTo (Suc k) w0 w'"
proof -
  from assms(1) obtain es where t: "trace w = trace w0 @ es"
    and l: "map fst (phaseLog es) = [1..<Suc k]" by (auto simp: loggedUpTo_def)
  have h: "LogPhase (Suc k) # b = [] \<or> hd (LogPhase (Suc k) # b) \<noteq> LogSkip" by simp
  from t assms(2) have "trace w' = trace w0 @ (es @ LogPhase (Suc k) # b)" by simp
  moreover from l assms(3) have "map fst (phaseLog (es @ LogPhase (Suc k) # b)) = [1..<Suc (Suc k)]"
    by (simp add: phaseLog_append [OF h])
  ultimately show ?thesis unfolding loggedUpTo_def by blast
qed

lemma loggedUpTo_header:
  assumes "loggedUpTo k w0 w" and "n = Suc k" and "requesting m"
  shows "loggedUpTo n w0 (snd (andThen (logEvent (LogPhase n)) (\<lambda>u. m) w))"
proof -
  let ?w1 = "w\<lparr>trace := trace w @ [LogPhase (Suc k)]\<rparr>"
  from requestingD [OF assms(3), of ?w1] obtain reqs
    where e: "trace (snd (m ?w1)) = trace w @ LogPhase (Suc k) # reqs"
      and n: "\<forall>e\<in>set reqs. \<not> isLog e" by auto
  from n have h: "reqs = [] \<or> hd reqs \<noteq> LogSkip" by (cases reqs) auto
  have a: "snd (andThen (logEvent (LogPhase (Suc k))) (\<lambda>u. m) w) = snd (m ?w1)"
    by (simp add: andThen_def logEvent_def)
  show ?thesis
    unfolding assms(2) a
    by (rule loggedUpTo_block [OF assms(1) e])
      (simp add: phaseLog_header [OF h] phaseLog_requests [OF n])
qed

lemma loggedUpTo_skipped:
  assumes "loggedUpTo k w0 w" and "n = Suc k" and "requesting m"
  shows "loggedUpTo n w0 (snd (andThen (skipPhase n) (\<lambda>u. m) w))"
proof -
  let ?w1 = "w\<lparr>trace := trace w @ [LogPhase (Suc k), LogSkip]\<rparr>"
  from requestingD [OF assms(3), of ?w1] obtain reqs
    where e: "trace (snd (m ?w1)) = trace w @ LogPhase (Suc k) # LogSkip # reqs"
      and n: "\<forall>e\<in>set reqs. \<not> isLog e" by auto
  have a: "snd (andThen (skipPhase (Suc k)) (\<lambda>u. m) w) = snd (m ?w1)"
    by (simp add: andThen_def skipPhase_world)
  show ?thesis
    unfolding assms(2) a
    by (rule loggedUpTo_block [OF assms(1) e]) (simp add: phaseLog_requests [OF n])
qed

lemma loggedUpTo_skipPhase:
  assumes "loggedUpTo k w0 w" and "n = Suc k"
  shows "loggedUpTo n w0 (snd (skipPhase n w))"
proof -
  have "snd (skipPhase n w) = snd (andThen (skipPhase n) (\<lambda>u. ret ()) w)"
    by (simp add: andThen_def skipPhase_world ret_def)
  with loggedUpTo_skipped [OF assms requesting_plain [OF plain_ret], of "()"]
  show ?thesis by simp
qed

lemma requesting_case_option:
  "requesting a \<Longrightarrow> (\<And>y. requesting (b y)) \<Longrightarrow>
   requesting (case x of None \<Rightarrow> a | Some y \<Rightarrow> b y)"
  by (cases x) simp_all

lemmas requesting_rules =
  requesting_andThen requesting_if requesting_case_option requesting_processExit

lemma phase2_logged:
  assumes "loggedUpTo 1 w0 w"
  shows "loggedUpTo 2 w0 (snd (phase2 rt ex w))"
proof (cases "needsRun ex 2")
  case True
  then show ?thesis
    unfolding phase2_def
    by (simp only: if_True)
      (rule loggedUpTo_header [OF assms], simp,
        intro requesting_rules requesting_plain [OF plain_installBasePackages]
          requesting_plain [OF plain_updateState] requesting_plain [OF plain_ret])
next
  case False
  then show ?thesis
    unfolding phase2_def by (simp only: if_False) (rule loggedUpTo_skipPhase [OF assms], simp)
qed

lemma phase3_logged:
  assumes "loggedUpTo 2 w0 w"
  shows "loggedUpTo 3 w0 (snd (phase3 rt ex w))"
proof (cases "needsRun ex 3")
  case True
  then show ?thesis
    unfolding phase3_def
    by (simp only: if_True)
      (rule loggedUpTo_header [OF assms], simp,
        intro requesting_rules requesting_plain [OF plain_installDocker]
          requesting_plain [OF plain_updateState] requesting_plain [OF plain_ret])
next
  case False
  then show ?thesis
    unfolding phase3_def by (simp only: if_False) (rule loggedUpTo_skipPhase [OF assms], simp)
qed

lemma phase4_logged:
  assumes "loggedUpTo 3 w0 w"
  shows "loggedUpTo 4 w0 (snd (phase4 rt config ex w))"
proof (cases "needsRun ex 4")
  case True
  then show ?thesis
    unfolding phase4_def
    by (simp only: if_True)
      (rule loggedUpTo_header [OF assms], simp,
        intro requesting_rules requesting_plain [OF plain_createDeploymentUser]
          requesting_plain [OF plain_createState] requesting_plain [OF plain_updateState]
          requesting_plain [OF plain_ret])
next
  case False
  then show ?thesis
    unfolding phase4_def
    by (simp only: if_False)
      (rule loggedUpTo_skipped [OF assms], simp, rule requesting_plain [OF plain_ret])
qed

lemma phase5_logged:
  assumes "loggedUpTo 4 w0 w"
  shows "loggedUpTo 5 w0 (snd (phase5 rt ex du w))"
proof (cases "needsRun ex 5")
  case True
  then show ?thesis
    unfolding phase5_def
    by (simp only: if_True)
      (rule loggedUpTo_header [OF assms], simp,
        intro requesting_rules requesting_plain [OF plain_createDirectories]
          requesting_plain [OF plain_updateState])
next
  case False
  then show ?thesis
    unfolding phase5_def by (simp only: if_False) (rule loggedUpTo_skipPhase [OF assms], simp)
qed

lemma phase6_logged:
  assumes "loggedUpTo 5 w0 w"
  shows "loggedUpTo 6 w0 (snd (phase6 rt config ex du w))"
proof (cases "needsRun ex 6")
  case True
  then show ?thesis
    unfolding phase6_def
    by (simp only: if_True)
      (rule loggedUpTo_header [OF assms], simp,
        intro requesting_rules requesting_plain [OF plain_buildImage]
          requesting_plain [OF plain_updateState] requesting_plain [OF plain_ret])
next
  case False
  then show ?thesis
    unfolding phase6_def
    by (simp only: if_False)
      (rule loggedUpTo_skipped [OF assms], simp, rule requesting_plain [OF plain_ret])
qed

lemma phase7_logged:
  assumes "loggedUpTo 6 w0 w"
  shows "loggedUpTo 7 w0 (snd (phase7 rt ex du img w))"
proof (cases "needsRun ex 7")
  case True
  then show ?thesis
    unfolding phase7_def
    by (simp only: if_True)
      (rule loggedUpTo_header [OF assms], simp,
        intro requesting_rules requesting_plain [OF plain_uploadComposeFiles]
          requesting_plain [OF plain_updateState])
next
  case False
  then show ?thesis
    unfolding phase7_def by (simp only: if_False) (rule loggedUpTo_skipPhase [OF assms], simp)
qed

lemma phase8_logged:
  assumes "loggedUpTo 7 w0 w"
  shows "loggedUpTo 8 w0 (snd (phase8 rt config ex du w))"
proof (cases "needsRun ex 8")
  case True
  then show ?thesis
    unfolding phase8_def
    by (simp only: if_True)
      (rule loggedUpTo_header [OF assms], simp,
        intro requesting_rules requesting_plain [OF plain_runOnboarding]
          requesting_plain [OF plain_extractGatewayToken] requesting_plain [OF plain_exec]
          requesting_plain [OF plain_updateEnvToken] requesting_plain [OF plain_startGateway]
          requesting_plain [OF plain_updateState] requesting_plain [OF plain_ret])
next
  case False
  then show ?thesis
    unfolding phase8_def
    by (simp only: if_False)
      (rule loggedUpTo_skipped [OF assms], simp,
        rule requesting_plain [OF plain_extractGatewayToken])
qed

text \<open>
  The run through phase \<open>k\<close> has logged the phases 1 to \<open>j\<close> for some \<open>j \<le> k\<close>, and the
  phases 1 to \<open>k\<close> when it returns. The prelude logs nothing when it stops before the
  connection.
\<close>

lemma prelude_logged:
  "(\<exists>j\<le>1. loggedUpTo j w (snd (prelude rt lm flagsIp w))) \<and>
   (\<forall>x w'. prelude rt lm flagsIp w = (Inr x, w') \<longrightarrow> loggedUpTo 1 w w')"
proof -
  define rest where "rest = (\<lambda>config.
        andThen connect (\<lambda>u4.
        andThen verifyRootAccess (\<lambda>isRoot.
          if \<not> isRoot then processExit 2
          else
            andThen (if clean config then cleanDeployment else ret ()) (\<lambda>u5.
            andThen (resumeCheck rt config) (\<lambda>existingState.
              ret (config, existingState))))))"
  have r: "requesting (rest config)" for config
    unfolding rest_def
    by (intro requesting_rules requesting_plain [OF plain_connect]
        requesting_plain [OF plain_verifyRootAccess] requesting_plain [OF plain_cleanDeployment]
        requesting_plain [OF plain_resumeCheck] requesting_plain [OF plain_ret])
  define tail where "tail = (\<lambda>config. andThen (logEvent (LogPhase 1)) (\<lambda>u3. rest config))"
  have p: "prelude rt lm flagsIp =
     (if \<not> validateIP flagsIp then processExit 1
      else
        andThen (loadConfig lm) (\<lambda>config.
        andThen (tryCatch (validateSSHKey lm) (\<lambda>error. processExit 1)) (\<lambda>u1.
        andThen (readKeyFile lm) (\<lambda>u2. tail config))))"
    unfolding prelude_def tail_def rest_def by (rule refl)
  have "(\<exists>e. prelude rt lm flagsIp w = (Inl e, w)) \<or>
        (\<exists>config. prelude rt lm flagsIp w = tail config w)"
    unfolding p
    by (auto simp: loadConfig_def validateSSHKey_def readKeyFile_def andThen_def tryCatch_def
        ret_def throw_def processExit_def split: option.splits)
  then have c: "(\<exists>e. prelude rt lm flagsIp w = (Inl e, w)) \<or>
           (\<exists>config. prelude rt lm flagsIp w =
              andThen (logEvent (LogPhase 1)) (\<lambda>u3. rest config) w)"
    by (simp add: tail_def)
  from c show ?thesis
  proof
    assume "\<exists>e. prelude rt lm flagsIp w = (Inl e, w)"
    then obtain e where "prelude rt lm flagsIp w = (Inl e, w)" ..
    with loggedUpTo_start [of w] show ?thesis by auto
  next
    assume "\<exists>config. prelude rt lm flagsIp w =
              andThen (logEvent (LogPhase 1)) (\<lambda>u3. rest config) w"
    then obtain config where p: "prelude rt lm flagsIp w =
              andThen (logEvent (LogPhase 1)) (\<lambda>u3. rest config) w" ..
    from loggedUpTo_header [OF loggedUpTo_start _ r, of 1 w config]
    have "loggedUpTo 1 w (snd (prelude rt lm flagsIp w))" by (simp add: p)
    then show ?thesis by auto
  qed
qed

lemma snd_andThen_ret: "snd (andThen m (\<lambda>x. ret (g x)) w) = snd (m w)"
  by (cases "m w") (auto simp: andThen_def ret_def split: sum.splits)

lemma logged_step:
  assumes "(\<exists>j\<le>k. loggedUpTo j w (snd (m w))) \<and>
           (\<forall>x w'. m w = (Inr x, w') \<longrightarrow> loggedUpTo k w w')"
    and "\<And>x w1. loggedUpTo k w w1 \<Longrightarrow> loggedUpTo (Suc k) w (snd (f x w1))"
  shows "(\<exists>j\<le>Suc k. loggedUpTo j w (snd (andThen m f w))) \<and>
         (\<forall>y w'. andThen m f w = (Inr y, w') \<longrightarrow> loggedUpTo (Suc k) w w')"
proof -
  obtain r w1 where mw: "m w = (r, w1)" by (cases "m w")
  show ?thesis
  proof (cases r)
    case (Inl e)
    with mw have a: "andThen m f w = (Inl e, w1)" by (simp add: andThen_def)
    from assms(1) mw obtain j where "j \<le> k" "loggedUpTo j w w1" by auto
    then have "j \<le> Suc k \<and> loggedUpTo j w w1" by simp
    then show ?thesis unfolding a by auto
  next
    case (Inr x)
    with mw have a: "andThen m f w = f x w1" by (simp add: andThen_def)
    from assms(1) mw Inr have "loggedUpTo k w w1" by simp
    from assms(2) [OF this] have l: "loggedUpTo (Suc k) w (snd (f x w1))" .
    have "\<And>y w'. f x w1 = (Inr y, w') \<Longrightarrow> loggedUpTo (Suc k) w w'"
    proof -
      fix y w'
      assume "f x w1 = (Inr y, w')"
      with l show "loggedUpTo (Suc k) w w'" by simp
    qed
    with l show ?thesis unfolding a by blast
  qed
qed

lemma through2_logged:
  "(\<exists>j\<le>2. loggedUpTo j w (snd (through2 rt lm flagsIp w))) \<and>
   (\<forall>x w'. through2 rt lm flagsIp w = (Inr x, w') \<longrightarrow> loggedUpTo 2 w w')"
proof -
  have s: "Suc 1 = 2" by simp
  show ?thesis
    unfolding through2_def
    by (rule logged_step [OF prelude_logged, unfolded s])
      (simp add: snd_andThen_ret phase2_logged split: prod.splits)
qed

lemma through3_logged:
  "(\<exists>j\<le>3. loggedUpTo j w (snd (through3 rt lm flagsIp w))) \<and>
   (\<forall>x w'. through3 rt lm flagsIp w = (Inr x, w') \<longrightarrow> loggedUpTo 3 w w')"
proof -
  have s: "Suc 2 = 3" by simp
  show ?thesis
    unfolding through3_def
    by (rule logged_step [OF through2_logged, unfolded s])
      (simp add: snd_andThen_ret phase3_logged split: prod.splits)
qed

lemma through4_logged:
  "(\<exists>j\<le>4. loggedUpTo j w (snd (through4 rt lm flagsIp w))) \<and>
   (\<forall>x w'. through4 rt lm flagsIp w = (Inr x, w') \<longrightarrow> loggedUpTo 4 w w')"
proof -
  have s: "Suc 3 = 4" by simp
  show ?thesis
    unfolding through4_def
    by (rule logged_step [OF through3_logged, unfolded s])
      (simp add: snd_andThen_ret phase4_logged split: prod.splits)
qed

lemma through5_logged:
  "(\<exists>j\<le>5. loggedUpTo j w (snd (through5 rt lm flagsIp w))) \<and>
   (\<forall>x w'. through5 rt lm flagsIp w = (Inr x, w') \<longrightarrow> loggedUpTo 5 w w')"
proof -
  have s: "Suc 4 = 5" by simp
  show ?thesis
    unfolding through5_def
    by (rule logged_step [OF through4_logged, unfolded s])
      (simp add: snd_andThen_ret phase5_logged split: prod.splits)
qed

lemma through6_logged:
  "(\<exists>j\<le>6. loggedUpTo j w (snd (through6 rt lm flagsIp w))) \<and>
   (\<forall>x w'. through6 rt lm flagsIp w = (Inr x, w') \<longrightarrow> loggedUpTo 6 w w')"
proof -
  have s: "Suc 5 = 6" by simp
  show ?thesis
    unfolding through6_def
    by (rule logged_step [OF through5_logged, unfolded s])
      (simp add: snd_andThen_ret phase6_logged split: prod.splits)
qed

lemma through7_logged:
  "(\<exists>j\<le>7. loggedUpTo j w (snd (through7 rt lm flagsIp w))) \<and>
   (\<forall>x w'. through7 rt lm flagsIp w = (Inr x, w') \<longrightarrow> loggedUpTo 7 w w')"
proof -
  have s: "Suc 6 = 7" by simp
  show ?thesis
    unfolding through7_def
    by (rule logged_step [OF through6_logged, unfolded s])
      (simp add: snd_andThen_ret phase7_logged split: prod.splits)
qed

lemma through8_logged:
  "(\<exists>j\<le>8. loggedUpTo j w (snd (through8 rt lm flagsIp w))) \<and>
   (\<forall>x w'. through8 rt lm flagsIp w = (Inr x, w') \<longrightarrow> loggedUpTo 8 w w')"
proof -
  have s: "Suc 7 = 8" by simp
  show ?thesis
    unfolding through8_def
    by (rule logged_step [OF through7_logged, unfolded s])
      (simp add: snd_andThen_ret phase8_logged split: prod.splits)
qed

lemma through9_logged:
  "(\<exists>j\<le>9. loggedUpTo j w (snd (through9 rt lm flagsIp w))) \<and>
   (\<forall>x w'. through9 rt lm flagsIp w = (Inr x, w') \<longrightarrow> loggedUpTo 9 w w')"
proof -
  have s: "Suc 8 = 9" by simp
  have r: "requesting (andThen (createInstanceArtifact lm) (\<lambda>u2. ret c))" for c :: 'c
    by (intro requesting_rules requesting_plain [OF plain_createInstanceArtifact]
        requesting_plain [OF plain_ret])
  show ?thesis
    unfolding through9_def
    by (rule logged_step [OF through8_logged, unfolded s])
      (simp add: loggedUpTo_header r split: prod.splits)
qed

lemma deployBody_logged:
  "(\<exists>j\<le>10. loggedUpTo j w (snd (deployBody rt lm flagsIp w))) \<and>
   (\<forall>x w'. deployBody rt lm flagsIp w = (Inr x, w') \<longrightarrow> loggedUpTo 10 w w')"
proof -
  have s: "Suc 9 = 10" by simp
  have r: "requesting (andThen deleteState (\<lambda>u4.
       if \<not> noAutoConnect config then autoConnect lm du else ret ()))"
    for config :: DeploymentConfig and du
    by (intro requesting_rules requesting_plain [OF plain_deleteState]
        requesting_plain [OF plain_autoConnect] requesting_plain [OF plain_ret])
  show ?thesis
    unfolding deployBody_def
    by (rule logged_step [OF through9_logged, unfolded s])
      (simp add: loggedUpTo_header r split: prod.splits)
qed

lemma deployCommand_phases:
  "(\<exists>k\<le>10. map fst (phaseLog (issued w (snd (deployCommand rt lm flagsIp w)))) = [1..<Suc k]) \<and>
   (fst (deployCommand rt lm flagsIp w) = Returned \<longrightarrow>
      map fst (phaseLog (issued w (snd (deployCommand rt lm flagsIp w)))) =
        [1, 2, 3, 4, 5, 6, 7, 8, 9, 10])"
proof -
  have i: "loggedUpTo j w (snd (deployBody rt lm flagsIp w)) \<Longrightarrow>
           map fst (phaseLog (issued w (snd (deployCommand rt lm flagsIp w)))) = [1..<Suc j]" for j
    by (auto simp: loggedUpTo_def issued_def deployCommand_trace)
  have u: "[1..<Suc 10] = [1, 2, 3, 4, 5, 6, 7, 8, 9, 10]" by (simp add: upt_rec)
  from deployBody_logged [of w rt lm flagsIp] obtain j
    where j: "j \<le> 10" "loggedUpTo j w (snd (deployBody rt lm flagsIp w))" by blast
  from i [OF j(2)] j(1) have a:
    "\<exists>k\<le>10. map fst (phaseLog (issued w (snd (deployCommand rt lm flagsIp w)))) = [1..<Suc k]"
    by blast
  have b: "fst (deployCommand rt lm flagsIp w) = Returned \<longrightarrow>
      map fst (phaseLog (issued w (snd (deployCommand rt lm flagsIp w)))) =
        [1, 2, 3, 4, 5, 6, 7, 8, 9, 10]"
  proof
    assume "fst (deployCommand rt lm flagsIp w) = Returned"
    then obtain x w' where "deployBody rt lm flagsIp w = (Inr x, w')"
      by (auto simp: deployCommand_def split: prod.splits sum.splits error.splits)
    with deployBody_logged [of w rt lm flagsIp]
    have "loggedUpTo 10 w (snd (deployBody rt lm flagsIp w))" by simp
    from i [OF this] u show "map fst (phaseLog (issued w (snd (deployCommand rt lm flagsIp w)))) =
        [1, 2, 3, 4, 5, 6, 7, 8, 9, 10]" by simp
  qed
  from a b show ?thesis ..
qed





end
